theory Spec2Isabelle
  imports Main
begin

section \<open>Values, objects and the store of caller-owned objects\<close>

text \<open>
  The program is \<^verbatim>\<open>src/CAC.ts\<close>: the class \<^verbatim>\<open>CAC\<close> with \<^verbatim>\<open>parse\<close>, \<^verbatim>\<open>mri\<close>,
  \<^verbatim>\<open>setParsedInfo\<close>, \<^verbatim>\<open>unsetMatchedCommand\<close> and \<^verbatim>\<open>runMatchedCommand\<close>.

  JavaScript values are modelled by \<open>val\<close>: \<^verbatim>\<open>undefined\<close>, booleans, numbers (integers
  only: fractions, exponents and \<^verbatim>\<open>NaN\<close> are outside the model), strings, arrays and
  objects. An object is an association list in insertion order; where the code
  enumerates the keys of an object it got from elsewhere (\<^verbatim>\<open>Object.keys(parsed)\<close>), the
  order is that of \<open>ownKeys\<close> below.

  A declared default value may be an object that the caller owns. \<^verbatim>\<open>CAC.mri\<close> stores
  it in the options mapping without copying (\<^verbatim>\<open>options[name] = cliOption.config.default\<close>),
  so the mapping and the declaration share it. Such an object lives in a \<open>store\<close> and is
  denoted by \<open>Ref a\<close>; everything else is an immediate value \<open>Val v\<close>. Objects that one
  \<^verbatim>\<open>mri\<close> call creates itself are reachable from its own options mapping only and are
  kept as immediate values.
\<close>

datatype val =
    VUndef
  | VBool bool
  | VNum int
  | VStr string
  | VArr "val list"
  | VObj "(string \<times> val) list"

datatype oval = Val val | Ref nat

type_synonym obj = "(string \<times> val) list"
type_synonym store = "nat \<Rightarrow> obj option"
type_synonym options_map = "(string \<times> oval) list"

text \<open>\<^verbatim>\<open>o[k] = v\<close>: an existing key keeps its position, a new key goes last.\<close>

fun obj_set :: "(string \<times> 'a) list \<Rightarrow> string \<Rightarrow> 'a \<Rightarrow> (string \<times> 'a) list" where
  "obj_set [] k v = [(k, v)]"
| "obj_set ((k', v') # ps) k v =
     (if k' = k then (k', v) # ps else (k', v') # obj_set ps k v)"

text \<open>\<^verbatim>\<open>o[k]\<close>; \<open>None\<close> is \<^verbatim>\<open>undefined\<close> for a key that is not there.\<close>

definition obj_get :: "(string \<times> 'a) list \<Rightarrow> string \<Rightarrow> 'a option" where
  "obj_get ps k = map_of ps k"

text \<open>JavaScript truthiness, as used by \<^verbatim>\<open>&&\<close>, \<^verbatim>\<open>||\<close>, \<^verbatim>\<open>?:\<close> and \<^verbatim>\<open>if\<close>.\<close>

fun truthy :: "val \<Rightarrow> bool" where
  "truthy VUndef = False"
| "truthy (VBool b) = b"
| "truthy (VNum n) = (n \<noteq> 0)"
| "truthy (VStr s) = (s \<noteq> [])"
| "truthy (VArr xs) = True"
| "truthy (VObj ps) = True"

fun truthy_oval :: "oval option \<Rightarrow> bool" where
  "truthy_oval None = False"
| "truthy_oval (Some (Val v)) = truthy v"
| "truthy_oval (Some (Ref a)) = True"

fun truthy_str :: "string option \<Rightarrow> bool" where
  "truthy_str None = False"
| "truthy_str (Some s) = (s \<noteq> [])"

section \<open>Strings\<close>

text \<open>\<^verbatim>\<open>s.split(c)\<close>: never the empty list.\<close>

fun split_on :: "char \<Rightarrow> string \<Rightarrow> string list" where
  "split_on c [] = [[]]"
| "split_on c (x # xs) =
     (if x = c then [] # split_on c xs
      else (case split_on c xs of
              [] \<Rightarrow> [[x]]
            | p # ps \<Rightarrow> (x # p) # ps))"

text \<open>\<^verbatim>\<open>xs.indexOf(x)\<close>, \<open>None\<close> for \<^verbatim>\<open>-1\<close>.\<close>

fun indexOf :: "'a list \<Rightarrow> 'a \<Rightarrow> nat option" where
  "indexOf [] x = None"
| "indexOf (y # ys) x =
     (if y = x then Some 0
      else (case indexOf ys x of None \<Rightarrow> None | Some i \<Rightarrow> Some (Suc i)))"

definition is_lower :: "char \<Rightarrow> bool" where
  "is_lower c = (c \<in> set ''abcdefghijklmnopqrstuvwxyz'')"

definition to_upper :: "char \<Rightarrow> char" where
  "to_upper c =
     (case map_of (zip ''abcdefghijklmnopqrstuvwxyz'' ''ABCDEFGHIJKLMNOPQRSTUVWXYZ'') c of
        None \<Rightarrow> c
      | Some u \<Rightarrow> u)"

definition is_digit :: "char \<Rightarrow> bool" where
  "is_digit c = (c \<in> set ''0123456789'')"

definition digit_val :: "char \<Rightarrow> nat" where
  "digit_val c = (case indexOf ''0123456789'' c of None \<Rightarrow> 0 | Some d \<Rightarrow> d)"

text \<open>
  Modelled from the spec: \<^verbatim>\<open>camelcaseOptionName\<close> of \<^verbatim>\<open>utils.ts\<close>, which is not under
  \<^verbatim>\<open>src/\<close>. The spec (4.4): alias names are normalised to one case convention,
  word-separated tokens joined without separators, first segment lowercase, so that
  \<^verbatim>\<open>--some-flag\<close> and \<^verbatim>\<open>someFlag\<close> are the same entry. A hyphen between two lowercase
  letters is dropped and the second letter is capitalised; the part of a dot-path key
  after the first dot is the nested path and is left as it is.
\<close>

fun camelcase :: "string \<Rightarrow> string" where
  "camelcase (a # b # c # rest) =
     (if is_lower a \<and> b = CHR ''-'' \<and> is_lower c
      then a # to_upper c # camelcase rest
      else a # camelcase (b # c # rest))"
| "camelcase s = s"

text \<open>Modelled from the spec: \<^verbatim>\<open>camelcaseOptionName\<close>, the segments of a key joined by dots again.\<close>

fun join_dot :: "string list \<Rightarrow> string" where
  "join_dot [] = []"
| "join_dot [s] = s"
| "join_dot (s # t # ss) = s @ CHR ''.'' # join_dot (t # ss)"

text \<open>Modelled from the spec: \<^verbatim>\<open>camelcaseOptionName\<close>, applied to a whole key.\<close>

definition camelcaseOptionName :: "string \<Rightarrow> string" where
  "camelcaseOptionName n =
     (case split_on CHR ''.'' n of
        [] \<Rightarrow> []
      | v # vs \<Rightarrow> join_dot (camelcase v # vs))"

section \<open>The registry: options, commands, the program\<close>

text \<open>
  \<^verbatim>\<open>Option.ts\<close> and \<^verbatim>\<open>Command.ts\<close> are not under \<^verbatim>\<open>src/\<close>; the records hold the fields
  that \<^verbatim>\<open>CAC.ts\<close> reads (\<^verbatim>\<open>name\<close>, \<^verbatim>\<open>names\<close>, \<^verbatim>\<open>config.default\<close>, \<^verbatim>\<open>config.type\<close> of an
  option; \<^verbatim>\<open>name\<close>, \<^verbatim>\<open>options\<close>, \<^verbatim>\<open>args\<close>, \<^verbatim>\<open>config\<close>, \<^verbatim>\<open>commandAction\<close> of a command) and
  those of the spec's data model (section 3) that validation needs. Field names carry
  a prefix because several classes have a \<^verbatim>\<open>name\<close>.
\<close>

datatype value_shape = BooleanFlag | RequiredValue | OptionalValue

record option_config =
  cfg_default :: "oval option"
  cfg_type :: "(val \<Rightarrow> val) list option"

record cli_option =
  opt_name :: string
  opt_names :: "string list"
  opt_shape :: value_shape
  opt_negated :: bool
  opt_config :: option_config

record command_arg =
  arg_required :: bool
  arg_value :: string
  arg_variadic :: bool

record command_config =
  allowUnknownOptions :: bool
  ignoreOptionDefaultValue :: bool

text \<open>
  The handler is applied to the array \<^verbatim>\<open>[env, ...positionals, options]\<close>; its elements
  are the caller's \<^verbatim>\<open>env\<close>, a positional (a string, \<^verbatim>\<open>undefined\<close> or an array of
  strings) and the options mapping.
\<close>

datatype 'e action_arg = AEnv 'e | APos val | AOpts options_map

record 'e command =
  cmd_name :: string
  cmd_options :: "cli_option list"
  cmd_args :: "command_arg list"
  cmd_config :: command_config
  commandAction :: "('e action_arg list \<Rightarrow> val) option"

record 'e cac =
  cac_name :: string
  commands :: "'e command list"
  globalCommand :: "'e command"
  showHelpOnExit :: bool
  showVersionOnExit :: bool

record parsed_argv =
  pa_args :: "string list"
  pa_options :: options_map

record 'e cntx =
  env :: 'e
  cntx_name :: string
  rawArgs :: "string list"
  args :: "string list"
  options :: options_map
  matchedCommand :: "'e command option"
  matchedCommandName :: "string option"
  result :: "val option"

datatype cac_error =
    UnknownOption string
  | OptionValueMissing string
  | MissingRequiredArgs string

section \<open>The low-level tokenizer\<close>

text \<open>
  Modelled from the spec: the low-level tokenizer, which \<^verbatim>\<open>CAC.ts\<close> imports as the
  package \<^verbatim>\<open>mri\<close> and which is not under \<^verbatim>\<open>src/\<close>. The spec (4.3): tokens are scanned
  left to right; a token that starts with a dash is a flag, any other token a
  positional; a long flag may carry an inline value after \<^verbatim>\<open>=\<close>; a flag without one
  that is not declared boolean takes the next token as its value unless that token
  looks like a flag; a group of short flags expands to independent boolean flags;
  \<^verbatim>\<open>--no-X\<close> sets \<^verbatim>\<open>X\<close> to false; an undeclared flag is recorded all the same; a value
  that is a numeric literal becomes a number; a repeated boolean flag overwrites, a
  repeated valued flag accumulates into an array. The value of a flag is recorded
  under each of its alias names (spec 8, alias equivalence). The standalone \<^verbatim>\<open>--\<close> is
  cut off by \<^verbatim>\<open>CAC.mri\<close> before the tokenizer runs. In the package the positional
  list is the entry \<^verbatim>\<open>_\<close> of the result; here it is a field of its own.
\<close>

record mri_options =
  mri_alias :: "string list list"
  mri_boolean :: "string list"

record raw_parsed =
  positional :: "string list"
  flags :: "(string \<times> val) list"

text \<open>
  Modelled from the spec: \<^verbatim>\<open>getMriOptions\<close> of \<^verbatim>\<open>utils.ts\<close>, which is not under \<^verbatim>\<open>src/\<close>.
  The spec (1a, 4.3): the declared option specifications are converted into the parser
  configuration, which tells the tokenizer the alias names of each option and which
  flags are declared boolean.
\<close>

definition getMriOptions :: "cli_option list \<Rightarrow> mri_options" where
  "getMriOptions cliOptions =
     \<lparr> mri_alias = map opt_names (filter (\<lambda>opt. 1 < length (opt_names opt)) cliOptions),
       mri_boolean = concat (map opt_names (filter (\<lambda>opt. opt_shape opt = BooleanFlag) cliOptions)) \<rparr>"

text \<open>Modelled from the spec: the tokenizer, numeric literals. Only decimal integers,
  with or without a minus sign, are numbers here.\<close>

fun parse_digits :: "nat \<Rightarrow> string \<Rightarrow> nat" where
  "parse_digits n [] = n"
| "parse_digits n (c # cs) = parse_digits (10 * n + digit_val c) cs"

text \<open>Modelled from the spec: the tokenizer, the number a numeric literal denotes.\<close>

definition numeric :: "string \<Rightarrow> int option" where
  "numeric s =
     (case s of
        [] \<Rightarrow> None
      | c # cs \<Rightarrow>
          if c = CHR ''-'' \<and> cs \<noteq> [] \<and> list_all is_digit cs
            then Some (- int (parse_digits 0 cs))
          else if list_all is_digit s then Some (int (parse_digits 0 s))
          else None)"

text \<open>Modelled from the spec: the tokenizer, the raw value of a flag that is given one.\<close>

definition flag_value :: "string \<Rightarrow> val" where
  "flag_value s = (case numeric s of Some n \<Rightarrow> VNum n | None \<Rightarrow> VStr s)"

text \<open>Modelled from the spec: the tokenizer, a repeated flag: a boolean overwrites, a
  value accumulates into an array.\<close>

fun accumulate :: "val option \<Rightarrow> val \<Rightarrow> val" where
  "accumulate None nxt = nxt"
| "accumulate (Some VUndef) nxt = nxt"
| "accumulate (Some old) (VBool b) = VBool b"
| "accumulate (Some (VArr xs)) nxt = VArr (xs @ [nxt])"
| "accumulate (Some old) nxt = VArr [old, nxt]"

text \<open>Modelled from the spec: the tokenizer, recording one flag; \<open>None\<close> is a flag
  without a value. A value after a flag that is declared boolean is a positional,
  unless it is \<^verbatim>\<open>true\<close> or \<^verbatim>\<open>false\<close>.\<close>

fun toVal :: "mri_options \<Rightarrow> raw_parsed \<Rightarrow> string \<Rightarrow> string option \<Rightarrow> raw_parsed" where
  "toVal opts out key None =
     out\<lparr>flags := obj_set (flags out) key (accumulate (obj_get (flags out) key) (VBool True))\<rparr>"
| "toVal opts out key (Some s) =
     (if key \<in> set (mri_boolean opts) then
        (if s = ''false'' then out\<lparr>flags := obj_set (flags out) key (VBool False)\<rparr>
         else if s = ''true'' then out\<lparr>flags := obj_set (flags out) key (VBool True)\<rparr>
         else out\<lparr>positional := positional out @ [s],
                  flags := obj_set (flags out) key (VBool True)\<rparr>)
      else
        out\<lparr>flags := obj_set (flags out) key
                        (accumulate (obj_get (flags out) key) (flag_value s))\<rparr>)"

text \<open>Modelled from the spec: the tokenizer, a group of flags: all but the last are boolean.\<close>

fun set_flags :: "mri_options \<Rightarrow> raw_parsed \<Rightarrow> string list \<Rightarrow> string option \<Rightarrow> raw_parsed" where
  "set_flags opts out [] v = out"
| "set_flags opts out [n] v = toVal opts out n v"
| "set_flags opts out (n # m # ns) v = set_flags opts (toVal opts out n None) (m # ns) v"

text \<open>Modelled from the spec: the tokenizer, the name of a flag, up to an \<^verbatim>\<open>=\<close>.\<close>

definition flag_name :: "string \<Rightarrow> string" where
  "flag_name body =
     (case body of [] \<Rightarrow> [] | c # cs \<Rightarrow> c # takeWhile (\<lambda>x. x \<noteq> CHR ''='') cs)"

text \<open>Modelled from the spec: the tokenizer, the inline value of a flag, after the \<^verbatim>\<open>=\<close>.\<close>

definition flag_inline :: "string \<Rightarrow> string" where
  "flag_inline body =
     (case body of [] \<Rightarrow> [] | c # cs \<Rightarrow> drop 1 (dropWhile (\<lambda>x. x \<noteq> CHR ''='') cs))"

text \<open>Modelled from the spec: the tokenizer, one long flag after two dashes, a group
  of short flags otherwise.\<close>

definition flag_names :: "nat \<Rightarrow> string \<Rightarrow> string list" where
  "flag_names j body =
     (if j = 2 then [flag_name body] else map (\<lambda>c. [c]) (flag_name body))"

text \<open>Modelled from the spec: the tokenizer, a token that looks like a flag.\<close>

definition looks_like_flag :: "string \<Rightarrow> bool" where
  "looks_like_flag s = (case s of [] \<Rightarrow> False | c # cs \<Rightarrow> c = CHR ''-'')"

text \<open>Modelled from the spec: the tokenizer, the scan from left to right.\<close>

fun mri_scan :: "mri_options \<Rightarrow> raw_parsed \<Rightarrow> string list \<Rightarrow> raw_parsed" where
  "mri_scan opts out [] = out"
| "mri_scan opts out (arg # rest) =
     (let j = length (takeWhile (\<lambda>c. c = CHR ''-'') arg);
          body = drop j arg
      in if j = 0 then mri_scan opts (out\<lparr>positional := positional out @ [arg]\<rparr>) rest
         else if take 3 body = ''no-''
           then mri_scan opts (out\<lparr>flags := obj_set (flags out) (drop 3 body) (VBool False)\<rparr>) rest
         else if flag_inline body \<noteq> []
           then mri_scan opts (set_flags opts out (flag_names j body) (Some (flag_inline body))) rest
         else (case rest of
                 [] \<Rightarrow> set_flags opts out (flag_names j body) None
               | nxt # rest' \<Rightarrow>
                   if looks_like_flag nxt
                     then mri_scan opts (set_flags opts out (flag_names j body) None) (nxt # rest')
                   else mri_scan opts (set_flags opts out (flag_names j body) (Some nxt)) rest'))"

text \<open>Modelled from the spec: the tokenizer, the other names of the option that carries a name.\<close>

definition aliases_of :: "mri_options \<Rightarrow> string \<Rightarrow> string list" where
  "aliases_of opts k =
     concat (map (\<lambda>g. if k \<in> set g then removeAll k g else []) (mri_alias opts))"

text \<open>Modelled from the spec: the tokenizer, each value recorded under every alias name.\<close>

definition mri_propagate :: "mri_options \<Rightarrow> (string \<times> val) list \<Rightarrow> (string \<times> val) list" where
  "mri_propagate opts fl =
     fold (\<lambda>k acc. case obj_get acc k of
                      None \<Rightarrow> acc
                    | Some v \<Rightarrow> fold (\<lambda>a acc'. obj_set acc' a v) (aliases_of opts k) acc)
          (map fst fl) fl"

text \<open>Modelled from the spec: the tokenizer, its entry point: the scan, then the alias names.\<close>

definition mri_lib :: "string list \<Rightarrow> mri_options \<Rightarrow> raw_parsed" where
  "mri_lib argv opts =
     (let out = mri_scan opts \<lparr> positional = [], flags = [] \<rparr> argv
      in out\<lparr>flags := mri_propagate opts (flags out)\<rparr>)"

section \<open>Option assignment: dot paths and array coercion\<close>

text \<open>Modelled from the spec: \<^verbatim>\<open>setDotProp\<close>, the walk below the first level of the path.\<close>

fun set_path :: "obj \<Rightarrow> string list \<Rightarrow> val \<Rightarrow> obj" where
  "set_path t [] v = t"
| "set_path t [k] v = obj_set t k v"
| "set_path t (k # k' # ks) v =
     obj_set t k
       (VObj (set_path (case obj_get t k of Some (VObj x) \<Rightarrow> x | _ \<Rightarrow> []) (k' # ks) v))"

text \<open>
  Modelled from the spec: \<^verbatim>\<open>setDotProp\<close> of \<^verbatim>\<open>utils.ts\<close>, which is not under \<^verbatim>\<open>src/\<close>.
  The spec (4.4, step 2): the path is walked, nested mapping levels are walked where
  they exist and created where they do not, and the leaf is set to the raw value.
  \<^verbatim>\<open>CAC.mri\<close> calls it for its effect on \<^verbatim>\<open>options\<close> and uses no return value, so it
  works in place: a level that exists is the object that is already there. When that
  object is a caller-owned one (\<open>Ref a\<close>), the write goes to the store. The spec does
  not say what happens at a level that exists and is no mapping (a string, a number,
  an array); the model creates the mapping there.
\<close>

definition setDotProp :: "store \<Rightarrow> options_map \<Rightarrow> string list \<Rightarrow> val \<Rightarrow> store \<times> options_map" where
  "setDotProp st opts keys v =
     (case keys of
        [] \<Rightarrow> (st, opts)
      | [k] \<Rightarrow> (st, obj_set opts k (Val v))
      | k # ks \<Rightarrow>
          (case obj_get opts k of
             Some (Ref a) \<Rightarrow>
               (case st a of
                  Some x \<Rightarrow> (st(a \<mapsto> set_path x ks v), opts)
                | None \<Rightarrow> (st, obj_set opts k (Val (VObj (set_path [] ks v)))))
           | Some (Val (VObj x)) \<Rightarrow> (st, obj_set opts k (Val (VObj (set_path x ks v))))
           | _ \<Rightarrow> (st, obj_set opts k (Val (VObj (set_path [] ks v))))))"

record transform =
  shouldTransform :: bool
  transformFunction :: "(val \<Rightarrow> val) option"

type_synonym transforms = "(string \<times> transform) list"

text \<open>Modelled from the spec: \<^verbatim>\<open>setByType\<close>, the raw occurrences held under a key: the
  elements of an array, a single value as one occurrence, nothing for a key that is
  not set.\<close>

fun collected :: "store \<Rightarrow> oval option \<Rightarrow> val list option" where
  "collected st None = None"
| "collected st (Some (Val VUndef)) = None"
| "collected st (Some (Val (VArr xs))) = Some xs"
| "collected st (Some (Val v)) = Some [v]"
| "collected st (Some (Ref a)) = Some [VObj (case st a of Some x \<Rightarrow> x | None \<Rightarrow> [])]"

text \<open>Modelled from the spec: \<^verbatim>\<open>setByType\<close>, the step for one entry of the table.\<close>

definition transformEntry :: "store \<Rightarrow> string \<times> transform \<Rightarrow> options_map \<Rightarrow> options_map" where
  "transformEntry st kt obj =
     (if shouldTransform (snd kt) then
        (case collected st (obj_get obj (fst kt)) of
           None \<Rightarrow> obj
         | Some xs \<Rightarrow>
             obj_set obj (fst kt)
               (Val (VArr (case transformFunction (snd kt) of
                             Some f \<Rightarrow> map f xs
                           | None \<Rightarrow> xs))))
      else obj)"

text \<open>
  Modelled from the spec: \<^verbatim>\<open>setByType\<close> of \<^verbatim>\<open>utils.ts\<close>, which is not under \<^verbatim>\<open>src/\<close>.
  The spec (4.1, 4.4 step 3): for every option declared with an array-element coercion
  function, the function is applied to each raw occurrence, collected into an array,
  under the canonical declared name. \<^verbatim>\<open>CAC.mri\<close> passes the table \<^verbatim>\<open>transforms\<close> it has
  built, one entry per canonical name with the fields \<^verbatim>\<open>shouldTransform\<close> and
  \<^verbatim>\<open>transformFunction\<close>, and calls the step after each key it assigns. The step reads
  the table and writes the options mapping; the table is the same at every call.
\<close>

definition setByType :: "store \<Rightarrow> options_map \<Rightarrow> transforms \<Rightarrow> options_map" where
  "setByType st obj trs = fold (transformEntry st) trs obj"

section \<open>\<^verbatim>\<open>CAC.mri\<close>\<close>

text \<open>
  \<^verbatim>\<open>Object.keys(o)\<close>, each key with its value: first the keys that are array indices
  (a decimal numeral without a sign or a leading zero, below \<open>2\<^sup>3\<^sup>2 - 1\<close>) in ascending
  numeric order, then the other keys in insertion order.
\<close>

definition index_value :: "string \<Rightarrow> int" where
  "index_value s = foldl (\<lambda>n c. 10 * n + int (digit_val c)) 0 s"

definition is_array_index :: "string \<Rightarrow> bool" where
  "is_array_index s =
     (s \<noteq> [] \<and> list_all is_digit s \<and> (s = ''0'' \<or> hd s \<noteq> CHR ''0'')
      \<and> index_value s < 4294967295)"

definition ownKeys :: "(string \<times> 'a) list \<Rightarrow> (string \<times> 'a) list" where
  "ownKeys ps =
     sort_key (\<lambda>kv. index_value (fst kv)) (filter (\<lambda>kv. is_array_index (fst kv)) ps)
     @ filter (\<lambda>kv. \<not> is_array_index (fst kv)) ps"

text \<open>Lines 270 to 278: the keys of the tokenizer's result are camel-cased, in the order
  of \<^verbatim>\<open>Object.keys\<close>; of two keys with the same camel-cased form the later one decides.\<close>

definition camelcaseKeys :: "(string \<times> val) list \<Rightarrow> (string \<times> val) list" where
  "camelcaseKeys fl =
     foldl (\<lambda>res nv. obj_set res (camelcaseOptionName (fst nv)) (snd nv)) [] (ownKeys fl)"

text \<open>Lines 294 to 311, the body of the loop over the declared options.\<close>

definition seedOption :: "bool \<Rightarrow> cli_option \<Rightarrow> options_map \<times> transforms \<Rightarrow> options_map \<times> transforms" where
  "seedOption ignoreDefault cliOption ot =
     (let opts = (case cfg_default (opt_config cliOption) of
                    None \<Rightarrow> fst ot
                  | Some d \<Rightarrow>
                      if \<not> ignoreDefault
                        then fold (\<lambda>name acc. obj_set acc name d) (opt_names cliOption) (fst ot)
                      else fst ot);
          trs = (case cfg_type (opt_config cliOption) of
                   None \<Rightarrow> snd ot
                 | Some ty \<Rightarrow>
                     if obj_get (snd ot) (opt_name cliOption) = None
                       then obj_set (snd ot) (opt_name cliOption)
                              \<lparr> shouldTransform = True,
                                transformFunction = (case ty of [] \<Rightarrow> None | f # fs \<Rightarrow> Some f) \<rparr>
                     else snd ot)
      in (opts, trs))"

text \<open>Lines 314 to 320, the loop over the keys of the parsed object, which \<^verbatim>\<open>CAC.mri\<close>
  hands over in the order of \<^verbatim>\<open>Object.keys\<close>.\<close>

fun assignOptions ::
  "store \<Rightarrow> options_map \<Rightarrow> transforms \<Rightarrow> (string \<times> val) list \<Rightarrow> store \<times> options_map" where
  "assignOptions st opts trs [] = (st, opts)"
| "assignOptions st opts trs (kv # rest) =
     (if fst kv \<noteq> ''_'' then
        (let so = setDotProp st opts (split_on CHR ''.'' (fst kv)) (snd kv)
         in assignOptions (fst so) (setByType (fst so) (snd so) trs) trs rest)
      else assignOptions st opts trs rest)"

definition cliOptionsOf :: "'e cac \<Rightarrow> 'e command option \<Rightarrow> cli_option list" where
  "cliOptionsOf cli command =
     cmd_options (globalCommand cli) @ (case command of Some c \<Rightarrow> cmd_options c | None \<Rightarrow> [])"

definition ignoreDefaultOf :: "'e cac \<Rightarrow> 'e command option \<Rightarrow> bool" where
  "ignoreDefaultOf cli command =
     (case command of
        Some c \<Rightarrow>
          if ignoreOptionDefaultValue (cmd_config c) then ignoreOptionDefaultValue (cmd_config c)
          else ignoreOptionDefaultValue (cmd_config (globalCommand cli))
      | None \<Rightarrow> ignoreOptionDefaultValue (cmd_config (globalCommand cli)))"

text \<open>What the tokenizer is given and returns in \<^verbatim>\<open>CAC.mri\<close> (lines 255 to 278).\<close>

definition argsAfterDoubleDashesOf :: "string list \<Rightarrow> string list" where
  "argsAfterDoubleDashesOf argv =
     (case indexOf argv ''--'' of None \<Rightarrow> [] | Some i \<Rightarrow> drop (i + 1) argv)"

definition argsBeforeDoubleDashes :: "string list \<Rightarrow> string list" where
  "argsBeforeDoubleDashes argv =
     (case indexOf argv ''--'' of None \<Rightarrow> argv | Some i \<Rightarrow> take i argv)"

definition tokenized :: "'e cac \<Rightarrow> 'e command option \<Rightarrow> string list \<Rightarrow> raw_parsed" where
  "tokenized cli command argv =
     mri_lib (argsBeforeDoubleDashes argv) (getMriOptions (cliOptionsOf cli command))"

definition mri :: "'e cac \<Rightarrow> store \<Rightarrow> string list \<Rightarrow> 'e command option \<Rightarrow> store \<times> parsed_argv" where
  "mri cli st argv command =
     (let cliOptions = cliOptionsOf cli command;
          argsAfterDoubleDashes = argsAfterDoubleDashesOf argv;
          raw = tokenized cli command argv;
          parsed = camelcaseKeys (flags raw);
          args = positional raw;
          options0 = [(''--'', Val (VArr (map VStr argsAfterDoubleDashes)))];
          ignoreDefault = ignoreDefaultOf cli command;
          ot = fold (seedOption ignoreDefault) cliOptions (options0, []);
          so = assignOptions st (fst ot) (snd ot) (ownKeys parsed)
      in (fst so, \<lparr> pa_args = args, pa_options = snd so \<rparr>))"

section \<open>Matching, validation and dispatch\<close>

definition setParsedInfo ::
  "'e cntx \<Rightarrow> parsed_argv \<Rightarrow> 'e command option \<Rightarrow> string option \<Rightarrow> 'e cntx" where
  "setParsedInfo c parsed mc mcn =
     c\<lparr> args := pa_args parsed,
        options := pa_options parsed,
        matchedCommand := (case mc of Some m \<Rightarrow> Some m | None \<Rightarrow> matchedCommand c),
        matchedCommandName := (if truthy_str mcn then mcn else matchedCommandName c) \<rparr>"

definition unsetMatchedCommand :: "'e cntx \<Rightarrow> 'e cntx" where
  "unsetMatchedCommand c = c\<lparr> matchedCommand := None, matchedCommandName := None \<rparr>"

text \<open>
  Modelled from the spec: \<^verbatim>\<open>Command.isMatched\<close> of \<^verbatim>\<open>Command.ts\<close>, which is not under
  \<^verbatim>\<open>src/\<close>. The spec (4.5, step 1): a non-default command is the match if the first
  positional token equals the command's literal name. The argument is \<^verbatim>\<open>parsed.args[0]\<close>,
  \<^verbatim>\<open>undefined\<close> (\<open>None\<close>) when there is no positional token.
\<close>

definition isMatched :: "'e command \<Rightarrow> string option \<Rightarrow> bool" where
  "isMatched command n = (cmd_name command \<noteq> [] \<and> n = Some (cmd_name command))"

text \<open>Modelled from the spec: \<^verbatim>\<open>checkUnknownOptions\<close>, the names declared globally or by the command.\<close>

definition declaredNames :: "'e command \<Rightarrow> 'e command \<Rightarrow> string list" where
  "declaredNames glob command = concat (map opt_names (cmd_options glob @ cmd_options command))"

text \<open>
  Modelled from the spec: \<^verbatim>\<open>checkUnknownOptions\<close>, \<^verbatim>\<open>checkOptionValue\<close> and
  \<^verbatim>\<open>checkRequiredArgs\<close> of \<^verbatim>\<open>Command.ts\<close>, which is not under \<^verbatim>\<open>src/\<close>. The spec (4.6):
  an unknown-option error for an option key of the parse result, other than the
  reserved passthrough key, that is not declared in the global or the matched
  command's options, unless the matched command's configuration disables the check; a
  missing-value error for a declared required-value option whose final value is
  \<^verbatim>\<open>undefined\<close>; a missing-argument error when fewer positional tokens are supplied
  than the matched command declares as required.
\<close>

definition checkUnknownOptions :: "'e command \<Rightarrow> 'e command \<Rightarrow> 'e cntx \<Rightarrow> cac_error + unit" where
  "checkUnknownOptions glob command c =
     (if allowUnknownOptions (cmd_config command) then Inr ()
      else (case filter (\<lambda>k. k \<noteq> ''--'' \<and> k \<notin> set (declaredNames glob command))
                        (map fst (options c)) of
              [] \<Rightarrow> Inr ()
            | k # ks \<Rightarrow> Inl (UnknownOption k)))"

text \<open>Modelled from the spec: \<^verbatim>\<open>checkOptionValue\<close>, the test for one option.\<close>

definition valueMissing :: "options_map \<Rightarrow> cli_option \<Rightarrow> bool" where
  "valueMissing opts opt =
     (opt_shape opt = RequiredValue \<and>
      (obj_get opts (opt_name opt) = None \<or> obj_get opts (opt_name opt) = Some (Val VUndef)))"

text \<open>Modelled from the spec: \<^verbatim>\<open>checkOptionValue\<close> of \<^verbatim>\<open>Command.ts\<close> (spec 4.6).\<close>

definition checkOptionValue :: "'e command \<Rightarrow> 'e command \<Rightarrow> 'e cntx \<Rightarrow> cac_error + unit" where
  "checkOptionValue glob command c =
     (case filter (valueMissing (options c)) (cmd_options glob @ cmd_options command) of
        [] \<Rightarrow> Inr ()
      | opt # opts \<Rightarrow> Inl (OptionValueMissing (opt_name opt)))"

text \<open>Modelled from the spec: \<^verbatim>\<open>checkRequiredArgs\<close> of \<^verbatim>\<open>Command.ts\<close> (spec 4.6).\<close>

definition checkRequiredArgs :: "'e command \<Rightarrow> 'e cntx \<Rightarrow> cac_error + unit" where
  "checkRequiredArgs command c =
     (if length (args c) < length (filter arg_required (cmd_args command))
        then Inl (MissingRequiredArgs (cmd_name command))
      else Inr ())"

text \<open>Lines 339 to 347: \<^verbatim>\<open>args.slice(index)\<close> for a variadic positional,
  \<^verbatim>\<open>args[index]\<close> otherwise, which is \<^verbatim>\<open>undefined\<close> beyond the end.\<close>

definition actionArg :: "string list \<Rightarrow> nat \<times> command_arg \<Rightarrow> 'e action_arg" where
  "actionArg as ia =
     (if arg_variadic (snd ia) then APos (VArr (map VStr (drop (fst ia) as)))
      else APos (if fst ia < length as then VStr (as ! fst ia) else VUndef))"

definition actionArgsOf :: "'e cntx \<Rightarrow> 'e command \<Rightarrow> 'e action_arg list" where
  "actionArgsOf c command =
     AEnv (env c) # map (actionArg (args c)) (enumerate 0 (cmd_args command)) @ [AOpts (options c)]"

definition runMatchedCommand :: "'e cac \<Rightarrow> 'e cntx \<Rightarrow> cac_error + val" where
  "runMatchedCommand cli c =
     (case matchedCommand c of
        None \<Rightarrow> Inr VUndef
      | Some command \<Rightarrow>
          (case commandAction command of
             None \<Rightarrow> Inr VUndef
           | Some act \<Rightarrow>
               (case checkUnknownOptions (globalCommand cli) command c of
                  Inl e \<Rightarrow> Inl e
                | Inr u \<Rightarrow>
                    (case checkOptionValue (globalCommand cli) command c of
                       Inl e \<Rightarrow> Inl e
                     | Inr u \<Rightarrow>
                         (case checkRequiredArgs command c of
                            Inl e \<Rightarrow> Inl e
                          | Inr u \<Rightarrow> Inr (act (actionArgsOf c command)))))))"

text \<open>
  The state of \<^verbatim>\<open>parse\<close> between its steps: the store, the context and the local
  \<^verbatim>\<open>shouldParse\<close>.
\<close>

type_synonym 'e search_state = "store \<times> 'e cntx \<times> bool"

text \<open>Lines 191 to 204, the loop over the sub-commands.\<close>

definition firstArg :: "parsed_argv \<Rightarrow> string option" where
  "firstArg parsed = (case pa_args parsed of [] \<Rightarrow> None | n # ns \<Rightarrow> Some n)"

fun searchSubCommands :: "'e cac \<Rightarrow> string list \<Rightarrow> 'e search_state \<Rightarrow> 'e command list \<Rightarrow> 'e search_state" where
  "searchSubCommands cli argv s [] = s"
| "searchSubCommands cli argv s (command # rest) =
     (let sp = mri cli (fst s) (drop 2 argv) (Some command);
          commandName = firstArg (snd sp)
      in if isMatched command commandName
           then searchSubCommands cli argv
                  (fst sp,
                   setParsedInfo (fst (snd s)) ((snd sp)\<lparr>pa_args := drop 1 (pa_args (snd sp))\<rparr>)
                     (Some command) commandName,
                   False) rest
         else searchSubCommands cli argv (fst sp, fst (snd s), snd (snd s)) rest)"

text \<open>Lines 208 to 215, the loop that looks for the default command.\<close>

fun searchDefaultCommand :: "'e cac \<Rightarrow> string list \<Rightarrow> 'e search_state \<Rightarrow> 'e command list \<Rightarrow> 'e search_state" where
  "searchDefaultCommand cli argv s [] = s"
| "searchDefaultCommand cli argv s (command # rest) =
     (if cmd_name command = [] then
        (let sp = mri cli (fst s) (drop 2 argv) (Some command)
         in searchDefaultCommand cli argv
              (fst sp, setParsedInfo (fst (snd s)) (snd sp) (Some command) None, False) rest)
      else searchDefaultCommand cli argv s rest)"

text \<open>Lines 180 to 186. \<^verbatim>\<open>getFileName\<close> (\<^verbatim>\<open>utils.ts\<close>) is not under \<^verbatim>\<open>src/\<close> and the spec
  does not describe it: it is a parameter. Its argument is \<^verbatim>\<open>argv[1]\<close>, \<^verbatim>\<open>undefined\<close>
  (\<open>None\<close>) for an \<^verbatim>\<open>argv\<close> of fewer than two entries. The condition is
  \<^verbatim>\<open>this.name || argv[1]\<close>: the conditional operator binds weaker than \<^verbatim>\<open>||\<close>.\<close>

definition argv1 :: "string list \<Rightarrow> string option" where
  "argv1 argv = (if 1 < length argv then Some (argv ! 1) else None)"

definition initialCntx :: "(string option \<Rightarrow> string) \<Rightarrow> 'e cac \<Rightarrow> 'e \<Rightarrow> string list \<Rightarrow> 'e cntx" where
  "initialCntx getFileName cli e argv =
     \<lparr> env = e,
       cntx_name = (if cac_name cli \<noteq> [] \<or> truthy_str (argv1 argv)
                    then getFileName (argv1 argv) else ''cli''),
       rawArgs = argv,
       args = [],
       options = [],
       matchedCommand = None,
       matchedCommandName = None,
       result = None \<rparr>"

text \<open>Lines 188 to 221: the sub-commands, then the default command, then the global
  options alone.\<close>

definition matchCommand :: "'e cac \<Rightarrow> string list \<Rightarrow> store \<Rightarrow> 'e cntx \<Rightarrow> store \<times> 'e cntx" where
  "matchCommand cli argv st c0 =
     (let s1 = searchSubCommands cli argv (st, c0, True) (commands cli);
          s2 = (if snd (snd s1) then searchDefaultCommand cli argv s1 (commands cli) else s1)
      in if snd (snd s2) then
           (let sp = mri cli (fst s2) (drop 2 argv) None
            in (fst sp, setParsedInfo (fst (snd s2)) (snd sp) None None))
         else (fst s2, fst (snd s2)))"

text \<open>Lines 223 to 237: the help and version flags. Each yields a context and the
  value of \<^verbatim>\<open>run\<close>.\<close>

definition helpStep :: "'e cac \<Rightarrow> 'e cntx \<times> bool \<Rightarrow> 'e cntx \<times> bool" where
  "helpStep cli cr =
     (if truthy_oval (obj_get (options (fst cr)) ''help'') \<and> showHelpOnExit cli
        then (unsetMatchedCommand (fst cr), False)
      else cr)"

definition versionStep :: "'e cac \<Rightarrow> 'e cntx \<times> bool \<Rightarrow> 'e cntx \<times> bool" where
  "versionStep cli cr =
     (if truthy_oval (obj_get (options (fst cr)) ''version'') \<and> showVersionOnExit cli
         \<and> matchedCommandName (fst cr) = None
        then (unsetMatchedCommand (fst cr), False)
      else cr)"

text \<open>
  \<^verbatim>\<open>CAC.parse\<close>. The result is the store after the call and either the error that was
  thrown or the context that was returned. The field \<open>result\<close> is \<open>None\<close> as long as
  \<^verbatim>\<open>runMatchedCommand\<close> has not run. The events that \<^verbatim>\<open>parse\<close> emits and the help and
  version output go to external collaborators and are not part of the model; a
  handler is a function of its arguments.
\<close>

definition parse ::
  "(string option \<Rightarrow> string) \<Rightarrow> 'e cac \<Rightarrow> store \<Rightarrow> 'e \<Rightarrow> string list \<Rightarrow> bool
     \<Rightarrow> store \<times> (cac_error + 'e cntx)" where
  "parse getFileName cli st e argv run =
     (let sc = matchCommand cli argv st (initialCntx getFileName cli e argv);
          cr = versionStep cli (helpStep cli (snd sc, run))
      in if snd cr then
           (case runMatchedCommand cli (fst cr) of
              Inl err \<Rightarrow> (fst sc, Inl err)
            | Inr r \<Rightarrow> (fst sc, Inr ((fst cr)\<lparr>result := Some r\<rparr>)))
         else (fst sc, Inr (fst cr)))"

section \<open>Observers and example programs\<close>

text \<open>The context a call of \<^verbatim>\<open>parse\<close> returns, \<open>None\<close> when it throws.\<close>

definition returned :: "store \<times> (cac_error + 'e cntx) \<Rightarrow> 'e cntx option" where
  "returned r = (case snd r of Inl err \<Rightarrow> None | Inr c \<Rightarrow> Some c)"

text \<open>The error a call of \<^verbatim>\<open>parse\<close> throws, \<open>None\<close> when it returns.\<close>

definition thrown :: "store \<times> (cac_error + 'e cntx) \<Rightarrow> cac_error option" where
  "thrown r = (case snd r of Inl err \<Rightarrow> Some err | Inr c \<Rightarrow> None)"

text \<open>The fields of the context that matching and the help and version steps never write.\<close>

definition cntx_frame :: "'e cntx \<Rightarrow> 'e \<times> string \<times> string list \<times> val option" where
  "cntx_frame c = (env c, cntx_name c, rawArgs c, result c)"

text \<open>A \<^verbatim>\<open>getFileName\<close> for the examples: the part after the last slash.\<close>

definition fileNameOf :: "string option \<Rightarrow> string" where
  "fileNameOf a = (case a of None \<Rightarrow> ''undefined'' | Some s \<Rightarrow> last (split_on CHR ''/'' s))"

definition declared :: "string list \<Rightarrow> value_shape \<Rightarrow> oval option \<Rightarrow> (val \<Rightarrow> val) list option \<Rightarrow> cli_option" where
  "declared ns sh d ty =
     \<lparr> opt_name = last ns, opt_names = ns, opt_shape = sh, opt_negated = False,
       opt_config = \<lparr> cfg_default = d, cfg_type = ty \<rparr> \<rparr>"

definition registered ::
  "string \<Rightarrow> cli_option list \<Rightarrow> command_arg list \<Rightarrow> ('e action_arg list \<Rightarrow> val) option \<Rightarrow> 'e command" where
  "registered n os as h =
     \<lparr> cmd_name = n, cmd_options = os, cmd_args = as,
       cmd_config = \<lparr> allowUnknownOptions = False, ignoreOptionDefaultValue = False \<rparr>,
       commandAction = h \<rparr>"

definition program :: "string \<Rightarrow> 'e command list \<Rightarrow> cli_option list \<Rightarrow> bool \<Rightarrow> bool \<Rightarrow> 'e cac" where
  "program n cs gos h v =
     \<lparr> cac_name = n, commands = cs, globalCommand = registered [] gos [] None,
       showHelpOnExit = h, showVersionOnExit = v \<rparr>"

text \<open>
  The program of the repository's example: the command \<^verbatim>\<open>rm <dir>\<close> with the option
  \<^verbatim>\<open>-r, --recursive\<close> and \<^verbatim>\<open>cli.help()\<close>. The handler returns the line that the
  example prints.
\<close>

definition rm_action :: "unit action_arg list \<Rightarrow> val" where
  "rm_action as =
     (case as of
        [AEnv e, APos (VStr dir), AOpts opts] \<Rightarrow>
          VStr (''remove '' @ dir @
                (if truthy_oval (obj_get opts ''recursive'') then '' recursively'' else []))
      | _ \<Rightarrow> VUndef)"

definition rm_command :: "unit command" where
  "rm_command =
     registered ''rm'' [declared [''r'', ''recursive''] BooleanFlag None None]
       [\<lparr> arg_required = True, arg_value = ''dir'', arg_variadic = False \<rparr>]
       (Some rm_action)"

definition rm_cli :: "unit cac" where
  "rm_cli = program [] [rm_command] [declared [''h'', ''help''] BooleanFlag None None] True False"

text \<open>A handler that returns the positionals it is given, in order.\<close>

definition echo_action :: "unit action_arg list \<Rightarrow> val" where
  "echo_action as = VArr (concat (map (\<lambda>a. case a of APos v \<Rightarrow> [v] | _ \<Rightarrow> []) as))"

text \<open>\<^verbatim>\<open>copy <src> [dest] [...others]\<close>.\<close>

definition copy_command :: "unit command" where
  "copy_command =
     registered ''copy'' []
       [\<lparr> arg_required = True, arg_value = ''src'', arg_variadic = False \<rparr>,
        \<lparr> arg_required = False, arg_value = ''dest'', arg_variadic = False \<rparr>,
        \<lparr> arg_required = False, arg_value = ''others'', arg_variadic = True \<rparr>]
       (Some echo_action)"

definition copy_cli :: "unit cac" where
  "copy_cli = program [] [copy_command] [] False False"

text \<open>A command \<^verbatim>\<open>build\<close> with a handler, and \<^verbatim>\<open>cli.version(...)\<close> with the flags
  \<^verbatim>\<open>-v, --version\<close>.\<close>

definition build_action :: "unit action_arg list \<Rightarrow> val" where
  "build_action as = VStr ''built''"

definition version_cli :: "unit cac" where
  "version_cli =
     program [] [registered ''build'' [] [] (Some build_action)]
       [declared [''v'', ''version''] BooleanFlag None None] False True"

definition version_run :: "store \<times> (cac_error + unit cntx)" where
  "version_run = parse fileNameOf version_cli Map.empty () [''node'', ''cli'', ''build'', ''--version''] True"

text \<open>A command \<^verbatim>\<open>build\<close> that has no handler, called with an option nobody declared.\<close>

definition plain_cli :: "unit cac" where
  "plain_cli = program [] [registered ''build'' [] [] None] [] False False"

definition plain_run :: "store \<times> (cac_error + unit cntx)" where
  "plain_run = parse fileNameOf plain_cli Map.empty () [''node'', ''cli'', ''build'', ''--foo''] True"

text \<open>The example program called with \<^verbatim>\<open>rm a/b --help\<close>: the context after matching.\<close>

definition help_argv :: "string list" where
  "help_argv = [''node'', ''cli'', ''rm'', ''a/b'', ''--help'']"

definition help_matched :: "unit cntx" where
  "help_matched = snd (matchCommand rm_cli help_argv Map.empty (initialCntx fileNameOf rm_cli () help_argv))"

text \<open>The example program called with an option nobody declared.\<close>

definition force_argv :: "string list" where
  "force_argv = [''node'', ''cli'', ''rm'', ''a/b'', ''--force'']"

definition force_matched :: "unit cntx" where
  "force_matched = snd (matchCommand rm_cli force_argv Map.empty (initialCntx fileNameOf rm_cli () force_argv))"

text \<open>\<^verbatim>\<open>copy a\<close>: one positional for three declared ones.\<close>

definition copy_run :: "store \<times> (cac_error + unit cntx)" where
  "copy_run = parse fileNameOf copy_cli Map.empty () [''node'', ''cli'', ''copy'', ''a''] True"

definition copy_cntx :: "unit cntx" where
  "copy_cntx = the (returned copy_run)"

text \<open>The candidates of matching. \<^verbatim>\<open>parse\<close> tokenizes once per command, with the global
  options and that command's own; \<open>candidateName\<close> is the \<^verbatim>\<open>parsed.args[0]\<close> it gets.\<close>

definition candidateName :: "'e cac \<Rightarrow> string list \<Rightarrow> 'e command \<Rightarrow> string option" where
  "candidateName cli argv command =
     (case positional (tokenized cli (Some command) (drop 2 argv)) of
        [] \<Rightarrow> None
      | n # ns \<Rightarrow> Some n)"

definition matching :: "'e cac \<Rightarrow> string list \<Rightarrow> 'e command list" where
  "matching cli argv = filter (\<lambda>c. isMatched c (candidateName cli argv c)) (commands cli)"

definition defaultCommands :: "'e cac \<Rightarrow> 'e command list" where
  "defaultCommands cli = filter (\<lambda>c. cmd_name c = []) (commands cli)"

definition optionNames :: "'e command \<Rightarrow> string list" where
  "optionNames c = map opt_name (cmd_options c)"

text \<open>A default command registered before the command \<^verbatim>\<open>build\<close>.\<close>

definition build_command :: "unit command" where
  "build_command = registered ''build'' [] [] (Some build_action)"

definition default_command :: "unit command" where
  "default_command = registered [] [] [] (Some echo_action)"

definition default_first_cli :: "unit cac" where
  "default_first_cli = program [] [default_command, build_command] [] False False"

definition build_argv :: "string list" where
  "build_argv = [''node'', ''cli'', ''build'']"

text \<open>Two commands registered under the name \<^verbatim>\<open>build\<close>; only the second declares
  \<^verbatim>\<open>--watch\<close>.\<close>

definition twice_cli :: "unit cac" where
  "twice_cli =
     program []
       [registered ''build'' [] [] None,
        registered ''build'' [declared [''watch''] BooleanFlag None None] [] None]
       [] False False"

definition twice_matched :: "unit cntx" where
  "twice_matched = snd (matchCommand twice_cli build_argv Map.empty (initialCntx fileNameOf twice_cli () build_argv))"

definition deploy_argv :: "string list" where
  "deploy_argv = [''node'', ''cli'', ''deploy'']"

text \<open>Reading a dot path back: the value found by walking the nested mappings along
  the path, through the store where a level is a caller-owned object.\<close>

fun get_path :: "obj \<Rightarrow> string list \<Rightarrow> val option" where
  "get_path t [] = None"
| "get_path t [k] = obj_get t k"
| "get_path t (k # k' # ks) =
     (case obj_get t k of Some (VObj x) \<Rightarrow> get_path x (k' # ks) | _ \<Rightarrow> None)"

definition getDotProp :: "store \<Rightarrow> options_map \<Rightarrow> string list \<Rightarrow> val option" where
  "getDotProp st opts keys =
     (case keys of
        [] \<Rightarrow> None
      | [k] \<Rightarrow>
          (case obj_get opts k of
             None \<Rightarrow> None
           | Some (Val v) \<Rightarrow> Some v
           | Some (Ref a) \<Rightarrow> map_option VObj (st a))
      | k # ks \<Rightarrow>
          (case obj_get opts k of
             Some (Ref a) \<Rightarrow> (case st a of Some x \<Rightarrow> get_path x ks | None \<Rightarrow> None)
           | Some (Val (VObj x)) \<Rightarrow> get_path x ks
           | _ \<Rightarrow> None))"

text \<open>A program without commands and options.\<close>

definition bare_cli :: "unit cac" where
  "bare_cli = program [] [] [] False False"

text \<open>The option \<^verbatim>\<open>--type [type]\<close> declared with \<^verbatim>\<open>type: [f]\<close>, where \<^verbatim>\<open>f\<close> appends an
  exclamation mark to a string, and the flag \<^verbatim>\<open>--watch\<close>.\<close>

definition exclaim :: "val \<Rightarrow> val" where
  "exclaim v = (case v of VStr s \<Rightarrow> VStr (s @ ''!'') | _ \<Rightarrow> v)"


text \<open>The option \<^verbatim>\<open>--env <env>\<close> declared with the default \<^verbatim>\<open>{}\<close>, an object of the
  caller's, at address 0 of the store.\<close>

definition env_cli :: "unit cac" where
  "env_cli = program [] [] [declared [''env''] RequiredValue (Some (Ref 0)) None] False False"

definition env_store :: store where
  "env_store = Map.empty(0 \<mapsto> [])"

definition env_run :: "store \<times> (cac_error + unit cntx)" where
  "env_run = parse fileNameOf env_cli env_store () [''node'', ''cli'', ''--env.foo'', ''1''] True"

definition env_rerun :: "store \<times> (cac_error + unit cntx)" where
  "env_rerun = parse fileNameOf env_cli (fst env_run) () [''node'', ''cli''] True"

text \<open>The object \<^verbatim>\<open>parsed\<close> of \<^verbatim>\<open>CAC.mri\<close> after line 278: the raw keys, camel-cased, with
  their raw values, as the loop of line 314 walks them.\<close>

definition parsedOf :: "'e cac \<Rightarrow> 'e command option \<Rightarrow> string list \<Rightarrow> (string \<times> val) list" where
  "parsedOf cli command argv = ownKeys (camelcaseKeys (flags (tokenized cli command argv)))"

text \<open>No raw key has \<open>k0\<close> as the first segment of its dot path.\<close>

definition untouched :: "string \<Rightarrow> (string \<times> val) list \<Rightarrow> bool" where
  "untouched k0 kvs = (\<forall>kv \<in> set kvs. hd (split_on CHR ''.'' (fst kv)) \<noteq> k0)"

text \<open>The option writes its default under the name \<open>n\<close> (line 297).\<close>

definition seeds :: "bool \<Rightarrow> cli_option \<Rightarrow> string \<Rightarrow> bool" where
  "seeds ignoreDefault opt n =
     (\<not> ignoreDefault \<and> cfg_default (opt_config opt) \<noteq> None \<and> n \<in> set (opt_names opt))"

text \<open>The option registers an array coercion under the name \<open>n\<close> (lines 302 to 309).\<close>

definition coerces :: "cli_option \<Rightarrow> string \<Rightarrow> bool" where
  "coerces opt n = (cfg_type (opt_config opt) \<noteq> None \<and> opt_name opt = n)"

text \<open>The option carries the name \<open>n\<close>, as an alias or as its canonical name.\<close>

definition declares :: "cli_option \<Rightarrow> string \<Rightarrow> bool" where
  "declares opt n = (n \<in> set (opt_names opt) \<or> opt_name opt = n)"

text \<open>An option declared under the name \<^verbatim>\<open>--\<close> with a default value.\<close>

definition reserved_cli :: "unit cac" where
  "reserved_cli =
     program [] [] [declared [''--''] OptionalValue (Some (Val (VStr ''x''))) None] False False"

definition reserved_argv :: "string list" where
  "reserved_argv = [''node'', ''cli'', ''a'', ''--'', ''y'']"

definition reserved_run :: "store \<times> (cac_error + unit cntx)" where
  "reserved_run = parse fileNameOf reserved_cli Map.empty () reserved_argv True"

text \<open>The example program called with \<^verbatim>\<open>rm a/b -r -- x --y\<close>.\<close>

definition tail_argv :: "string list" where
  "tail_argv = [''rm'', ''a/b'', ''-r'', ''--'', ''x'', ''--y'']"






text \<open>One path is the beginning of another.\<close>

fun is_prefix :: "'a list \<Rightarrow> 'a list \<Rightarrow> bool" where
  "is_prefix [] ys = True"
| "is_prefix (x # xs) [] = False"
| "is_prefix (x # xs) (y # ys) = (x = y \<and> is_prefix xs ys)"

text \<open>Neither of two paths is the beginning of the other: they part at some level.\<close>

definition incomparable :: "'a list \<Rightarrow> 'a list \<Rightarrow> bool" where
  "incomparable p q = (\<not> is_prefix p q \<and> \<not> is_prefix q p)"

text \<open>The path of the key \<open>k\<close> parts from the path of every other key.\<close>

definition pathsApart :: "string \<Rightarrow> (string \<times> val) list \<Rightarrow> bool" where
  "pathsApart k kvs =
     list_all (\<lambda>kv. fst kv = k \<or> incomparable (split_on CHR ''.'' k) (split_on CHR ''.'' (fst kv))) kvs"

text \<open>What the options mapping holds under the name \<open>n\<close>, as an object of that one key;
  empty if the name is not set or holds a caller-owned object.\<close>

definition slot_obj :: "options_map \<Rightarrow> string \<Rightarrow> obj" where
  "slot_obj opts n = (case obj_get opts n of Some (Val x) \<Rightarrow> [(n, x)] | _ \<Rightarrow> [])"

text \<open>The options mapping holds no caller-owned object under the name \<open>n\<close>.\<close>

definition plain :: "options_map \<Rightarrow> string \<Rightarrow> bool" where
  "plain opts n = (case obj_get opts n of Some (Ref a) \<Rightarrow> False | _ \<Rightarrow> True)"

text \<open>The option \<^verbatim>\<open>--a [a]\<close> declared with \<^verbatim>\<open>type: [f]\<close>, where \<^verbatim>\<open>f\<close> appends an exclamation
  mark to a string and returns any other value as it is.\<close>

definition coerced_cli :: "unit cac" where
  "coerced_cli = program [] [] [declared [''a''] OptionalValue None (Some [exclaim])] False False"

definition nested_argv :: "string list" where
  "nested_argv = [''--a.b=1'', ''--a.c=2'']"



section \<open>What the steps of \<^verbatim>\<open>parse\<close> leave alone\<close>

lemma frame_setParsedInfo: "cntx_frame (setParsedInfo c p mc mcn) = cntx_frame c"
  by (simp add: cntx_frame_def setParsedInfo_def)

lemma frame_unsetMatchedCommand: "cntx_frame (unsetMatchedCommand c) = cntx_frame c"
  by (simp add: cntx_frame_def unsetMatchedCommand_def)

lemma frame_searchSubCommands:
  "cntx_frame (fst (snd (searchSubCommands cli argv s cs))) = cntx_frame (fst (snd s))"
  by (induction cs arbitrary: s) (simp_all add: Let_def frame_setParsedInfo)

lemma frame_searchDefaultCommand:
  "cntx_frame (fst (snd (searchDefaultCommand cli argv s cs))) = cntx_frame (fst (snd s))"
  by (induction cs arbitrary: s) (simp_all add: Let_def frame_setParsedInfo)

lemma frame_matchCommand: "cntx_frame (snd (matchCommand cli argv st c0)) = cntx_frame c0"
  by (simp add: matchCommand_def Let_def frame_setParsedInfo frame_searchSubCommands
      frame_searchDefaultCommand)

lemma frame_helpStep: "cntx_frame (fst (helpStep cli cr)) = cntx_frame (fst cr)"
  by (simp add: helpStep_def frame_unsetMatchedCommand)

lemma frame_versionStep: "cntx_frame (fst (versionStep cli cr)) = cntx_frame (fst cr)"
  by (simp add: versionStep_def frame_unsetMatchedCommand)

lemma frame_steps:
  "cntx_frame (fst (versionStep cli (helpStep cli (snd (matchCommand cli argv st c0), run))))
     = cntx_frame c0"
  by (simp add: frame_versionStep frame_helpStep frame_matchCommand)

lemma parse_returns_cases:
  assumes "parse getFileName cli st e argv run = (st', Inr c)"
  obtains (skipped)
      "snd (versionStep cli (helpStep cli
              (snd (matchCommand cli argv st (initialCntx getFileName cli e argv)), run))) = False"
      "c = fst (versionStep cli (helpStep cli
              (snd (matchCommand cli argv st (initialCntx getFileName cli e argv)), run)))"
  | (ran) r where
      "snd (versionStep cli (helpStep cli
              (snd (matchCommand cli argv st (initialCntx getFileName cli e argv)), run))) = True"
      "runMatchedCommand cli (fst (versionStep cli (helpStep cli
              (snd (matchCommand cli argv st (initialCntx getFileName cli e argv)), run)))) = Inr r"
      "c = (fst (versionStep cli (helpStep cli
              (snd (matchCommand cli argv st (initialCntx getFileName cli e argv)), run))))
             \<lparr>result := Some r\<rparr>"
  using assms by (auto simp: parse_def Let_def split: if_splits sum.splits)

section \<open>The help and version steps, and dispatch\<close>

lemma unset_idem: "unsetMatchedCommand (unsetMatchedCommand c) = unsetMatchedCommand c"
  by (simp add: unsetMatchedCommand_def)

lemma options_unset: "options (unsetMatchedCommand c) = options c"
  by (simp add: unsetMatchedCommand_def)

lemma steps_fire:
  assumes "(truthy_oval (obj_get (options c1) ''help'') \<and> showHelpOnExit cli)
           \<or> (truthy_oval (obj_get (options c1) ''version'') \<and> showVersionOnExit cli
               \<and> matchedCommandName c1 = None)"
  shows "versionStep cli (helpStep cli (c1, run)) = (unsetMatchedCommand c1, False)"
  using assms
  by (auto simp: versionStep_def helpStep_def unset_idem options_unset)

lemma steps_skipped_unset:
  assumes "snd (versionStep cli (helpStep cli (c1, True))) = False"
  shows "fst (versionStep cli (helpStep cli (c1, True))) = unsetMatchedCommand c1"
  using assms
  by (auto simp: versionStep_def helpStep_def unset_idem options_unset split: if_splits)

lemma steps_ran:
  assumes "snd (versionStep cli (helpStep cli (c1, run))) = True"
  shows "versionStep cli (helpStep cli (c1, run)) = (c1, True)"
  using assms
  by (auto simp: versionStep_def helpStep_def split: if_splits)

lemma enumerate_map_upt:
  "map f (enumerate 0 xs) = map (\<lambda>i. f (i, xs ! i)) [0..<length xs]"
  by (rule nth_equalityI) (simp_all add: nth_enumerate_eq)

lemma actionArgsOf_expand:
  "actionArgsOf c command =
     AEnv (env c) #
     map (\<lambda>i. if arg_variadic (cmd_args command ! i)
               then APos (VArr (map VStr (drop i (args c))))
               else APos (if i < length (args c) then VStr (args c ! i) else VUndef))
         [0..<length (cmd_args command)]
     @ [AOpts (options c)]"
  by (simp add: actionArgsOf_def enumerate_map_upt actionArg_def)

lemma runMatchedCommand_Inr:
  assumes "runMatchedCommand cli c = Inr r"
    and "matchedCommand c = Some command" and "commandAction command = Some act"
  shows "r = act (actionArgsOf c command)"
  using assms by (auto simp: runMatchedCommand_def split: sum.splits)

lemma returned_SomeE:
  assumes "returned r \<noteq> None"
  obtains st' c where "r = (st', Inr c)"
  using assms by (cases r; cases "snd r") (auto simp: returned_def)

section \<open>Which command the loops of \<^verbatim>\<open>parse\<close> bind\<close>

lemma mri_args: "pa_args (snd (mri cli st argv command)) = positional (tokenized cli command argv)"
  by (simp add: mri_def Let_def)

lemma firstArg_mri:
  "firstArg (snd (mri cli st (drop 2 argv) (Some command))) = candidateName cli argv command"
  by (simp add: firstArg_def candidateName_def mri_args)

lemma matched_setParsedInfo:
  "matchedCommand (setParsedInfo c p (Some m) mcn) = Some m"
  "matchedCommand (setParsedInfo c p None mcn) = matchedCommand c"
  by (simp_all add: setParsedInfo_def)

lemma searchSubCommands_matched:
  "matchedCommand (fst (snd (searchSubCommands cli argv s cs)))
     = (if filter (\<lambda>c. isMatched c (candidateName cli argv c)) cs \<noteq> []
        then Some (last (filter (\<lambda>c. isMatched c (candidateName cli argv c)) cs))
        else matchedCommand (fst (snd s)))
   \<and> snd (snd (searchSubCommands cli argv s cs))
     = (if filter (\<lambda>c. isMatched c (candidateName cli argv c)) cs \<noteq> [] then False
        else snd (snd s))"
proof (induction cs arbitrary: s)
  case Nil
  show ?case by simp
next
  case (Cons command rest)
  show ?case
    by (simp add: Let_def firstArg_mri Cons.IH matched_setParsedInfo)
qed

lemma searchDefaultCommand_matched:
  "matchedCommand (fst (snd (searchDefaultCommand cli argv s cs)))
     = (if filter (\<lambda>c. cmd_name c = []) cs \<noteq> []
        then Some (last (filter (\<lambda>c. cmd_name c = []) cs))
        else matchedCommand (fst (snd s)))
   \<and> snd (snd (searchDefaultCommand cli argv s cs))
     = (if filter (\<lambda>c. cmd_name c = []) cs \<noteq> [] then False else snd (snd s))"
proof (induction cs arbitrary: s)
  case Nil
  show ?case by simp
next
  case (Cons command rest)
  show ?case
    by (simp add: Let_def Cons.IH matched_setParsedInfo)
qed

lemma matchCommand_matched:
  "matchedCommand (snd (matchCommand cli argv st c0))
     = (if matching cli argv \<noteq> [] then Some (last (matching cli argv))
        else if defaultCommands cli \<noteq> [] then Some (last (defaultCommands cli))
        else matchedCommand c0)"
  by (simp add: matchCommand_def Let_def matching_def defaultCommands_def
      searchSubCommands_matched searchDefaultCommand_matched matched_setParsedInfo)

section \<open>Objects, dot paths and the loops of \<^verbatim>\<open>CAC.mri\<close>\<close>

lemma obj_get_set_same: "obj_get (obj_set ps k v) k = Some v"
  by (induction ps) (auto simp: obj_get_def)

lemma obj_get_set_other: "k' \<noteq> k \<Longrightarrow> obj_get (obj_set ps k v) k' = obj_get ps k'"
  by (induction ps) (auto simp: obj_get_def)

lemma split_on_nonempty: "split_on c s \<noteq> []"
  by (induction s) (auto split: list.splits)

lemma get_path_set_path: "ks \<noteq> [] \<Longrightarrow> get_path (set_path t ks v) ks = Some v"
  by (induction t ks v rule: set_path.induct) (simp_all add: obj_get_set_same)

lemma getDotProp_setDotProp:
  assumes "keys \<noteq> []"
  shows "getDotProp (fst (setDotProp st opts keys v)) (snd (setDotProp st opts keys v)) keys = Some v"
proof (cases keys)
  case Nil
  with assms show ?thesis by simp
next
  case (Cons k ks)
  show ?thesis
  proof (cases ks)
    case Nil
    with Cons show ?thesis
      by (simp add: setDotProp_def getDotProp_def obj_get_set_same)
  next
    case (Cons k' ks')
    then have ne: "ks \<noteq> []" by simp
    from \<open>keys = k # ks\<close> Cons show ?thesis
      using get_path_set_path [OF ne]
      by (auto simp: setDotProp_def getDotProp_def obj_get_set_same
               split: option.splits oval.splits val.splits)
  qed
qed

lemma obj_set_keys: "fst ` set (obj_set ps k v) = insert k (fst ` set ps)"
proof (induction ps)
  case Nil
  show ?case by simp
next
  case (Cons p ps)
  obtain a b where p: "p = (a, b)"
    by (cases p)
  show ?case
  proof (cases "a = k")
    case True
    with p show ?thesis by simp
  next
    case False
    with p Cons.IH show ?thesis by (simp add: insert_commute)
  qed
qed

lemma obj_set_head: "k \<noteq> k0 \<Longrightarrow> obj_set ((k0, x) # r) k v = (k0, x) # obj_set r k v"
  by simp

lemma obj_get_head: "k \<noteq> k0 \<Longrightarrow> obj_get ((k0, x) # r) k = obj_get r k"
  by (simp add: obj_get_def)

subsection \<open>\<^verbatim>\<open>setDotProp\<close>\<close>

lemma setDotProp_keys:
  "fst ` set opts \<subseteq> fst ` set (snd (setDotProp st opts keys v))"
  by (auto simp: setDotProp_def obj_set_keys split: list.splits option.splits oval.splits val.splits)

lemma setDotProp_other:
  assumes "keys \<noteq> []" and "hd keys \<noteq> k0"
  shows "obj_get (snd (setDotProp st opts keys v)) k0 = obj_get opts k0"
  using assms
  by (auto simp: setDotProp_def obj_get_set_other
           split: list.splits option.splits oval.splits val.splits)

lemma setDotProp_head:
  assumes "keys \<noteq> []" and "hd keys \<noteq> k0"
  shows "setDotProp st ((k0, x) # r) keys v
           = (fst (setDotProp st r keys v), (k0, x) # snd (setDotProp st r keys v))"
  using assms
  by (auto simp: setDotProp_def obj_get_head
           split: list.splits option.splits oval.splits val.splits)

lemma setDotProp_leaf: "snd (setDotProp st opts [k] v) = obj_set opts k (Val v)"
  by (simp add: setDotProp_def)

subsection \<open>\<^verbatim>\<open>setByType\<close>\<close>

lemma transformEntry_keys: "fst ` set obj \<subseteq> fst ` set (transformEntry st kt obj)"
  by (auto simp: transformEntry_def obj_set_keys split: option.splits)

lemma transformEntry_other:
  "fst kt \<noteq> k0 \<Longrightarrow> obj_get (transformEntry st kt obj) k0 = obj_get obj k0"
  by (auto simp: transformEntry_def obj_get_set_other split: option.splits)

lemma transformEntry_head:
  "fst kt \<noteq> k0 \<Longrightarrow> transformEntry st kt ((k0, x) # r) = (k0, x) # transformEntry st kt r"
  by (auto simp: transformEntry_def obj_get_head split: option.splits)

lemma setByType_keys: "fst ` set obj \<subseteq> fst ` set (setByType st obj trs)"
  unfolding setByType_def
proof (induction trs arbitrary: obj)
  case Nil
  show ?case by simp
next
  case (Cons kt trs)
  have "fst ` set obj \<subseteq> fst ` set (transformEntry st kt obj)"
    by (rule transformEntry_keys)
  also have "\<dots> \<subseteq> fst ` set (fold (transformEntry st) trs (transformEntry st kt obj))"
    by (rule Cons.IH)
  finally show ?case by simp
qed

lemma setByType_other:
  "k0 \<notin> fst ` set trs \<Longrightarrow> obj_get (setByType st obj trs) k0 = obj_get obj k0"
  unfolding setByType_def
  by (induction trs arbitrary: obj) (auto simp: transformEntry_other)

lemma setByType_head:
  "k0 \<notin> fst ` set trs \<Longrightarrow> setByType st ((k0, x) # r) trs = (k0, x) # setByType st r trs"
  unfolding setByType_def
  by (induction trs arbitrary: r) (auto simp: transformEntry_head)

subsection \<open>The loop over the parsed keys\<close>

lemma assignOptions_keys:
  "fst ` set opts \<subseteq> fst ` set (snd (assignOptions st opts trs kvs))"
proof (induction kvs arbitrary: st opts)
  case Nil
  show ?case by simp
next
  case (Cons kv rest)
  show ?case
  proof (cases "fst kv = ''_''")
    case True
    with Cons.IH show ?thesis by simp
  next
    case False
    let ?so = "setDotProp st opts (split_on CHR ''.'' (fst kv)) (snd kv)"
    have "fst ` set opts \<subseteq> fst ` set (snd ?so)"
      by (rule setDotProp_keys)
    also have "\<dots> \<subseteq> fst ` set (setByType (fst ?so) (snd ?so) trs)"
      by (rule setByType_keys)
    also have "\<dots> \<subseteq> fst ` set (snd (assignOptions (fst ?so) (setByType (fst ?so) (snd ?so) trs) trs rest))"
      by (rule Cons.IH)
    finally show ?thesis
      using False by (simp add: Let_def)
  qed
qed

lemma assignOptions_other:
  assumes "untouched k0 kvs" and "k0 \<notin> fst ` set trs"
  shows "obj_get (snd (assignOptions st opts trs kvs)) k0 = obj_get opts k0"
  using assms(1)
proof (induction kvs arbitrary: st opts)
  case Nil
  show ?case by simp
next
  case (Cons kv rest)
  then have u: "hd (split_on CHR ''.'' (fst kv)) \<noteq> k0" and r: "untouched k0 rest"
    by (simp_all add: untouched_def)
  show ?case
    using Cons.IH [OF r] u assms(2)
    by (simp add: Let_def setByType_other setDotProp_other split_on_nonempty)
qed

lemma assignOptions_head:
  assumes "untouched k0 kvs" and "k0 \<notin> fst ` set trs"
  shows "assignOptions st ((k0, x) # r) trs kvs
           = (fst (assignOptions st r trs kvs), (k0, x) # snd (assignOptions st r trs kvs))"
  using assms(1)
proof (induction kvs arbitrary: st r)
  case Nil
  show ?case by simp
next
  case (Cons kv rest)
  then have u: "hd (split_on CHR ''.'' (fst kv)) \<noteq> k0" and rr: "untouched k0 rest"
    by (simp_all add: untouched_def)
  show ?case
    using Cons.IH [OF rr] u assms(2)
    by (simp add: Let_def setByType_head setDotProp_head split_on_nonempty)
qed

subsection \<open>Seeding the defaults\<close>

lemma seedNames_get:
  "obj_get (fold (\<lambda>name acc. obj_set acc name d) names acc) n
     = (if n \<in> set names then Some d else obj_get acc n)"
proof (induction names arbitrary: acc)
  case Nil
  show ?case by simp
next
  case (Cons m names)
  show ?case
    using Cons.IH [of "obj_set acc m d"]
    by (auto simp: obj_get_set_same obj_get_set_other)
qed

lemma seedNames_keys:
  "fst ` set acc \<subseteq> fst ` set (fold (\<lambda>name acc. obj_set acc name d) names acc)"
proof (induction names arbitrary: acc)
  case Nil
  show ?case by simp
next
  case (Cons m names)
  have "fst ` set acc \<subseteq> fst ` set (obj_set acc m d)"
    by (auto simp: obj_set_keys)
  also have "\<dots> \<subseteq> fst ` set (fold (\<lambda>name acc. obj_set acc name d) names (obj_set acc m d))"
    by (rule Cons.IH)
  finally show ?case by simp
qed

lemma seedNames_head:
  "k0 \<notin> set names \<Longrightarrow>
     fold (\<lambda>name acc. obj_set acc name d) names ((k0, x) # r)
       = (k0, x) # fold (\<lambda>name acc. obj_set acc name d) names r"
  by (induction names arbitrary: r) auto

lemma seedOption_snd: "snd (seedOption ig opt (opts, trs)) = snd (seedOption ig opt (opts', trs))"
  by (auto simp: seedOption_def Let_def split: option.splits)

lemma seedOption_get:
  "obj_get (fst (seedOption ig opt ot)) n
     = (if seeds ig opt n then cfg_default (opt_config opt) else obj_get (fst ot) n)"
  by (auto simp: seedOption_def Let_def seeds_def seedNames_get split: option.splits)

lemma seedOption_keys: "fst ` set (fst ot) \<subseteq> fst ` set (fst (seedOption ig opt ot))"
proof (cases "cfg_default (opt_config opt)")
  case None
  then show ?thesis
    by (simp add: seedOption_def Let_def)
next
  case (Some d)
  with seedNames_keys [of "fst ot" d "opt_names opt"] show ?thesis
    by (simp add: seedOption_def Let_def)
qed

lemma seedOption_head:
  "\<not> seeds ig opt k0 \<Longrightarrow>
     seedOption ig opt ((k0, x) # r, trs)
       = ((k0, x) # fst (seedOption ig opt (r, trs)), snd (seedOption ig opt (r, trs)))"
  by (auto simp: seedOption_def Let_def seeds_def seedNames_head split: option.splits)

lemma seedOption_transforms:
  "fst ` set (snd (seedOption ig opt ot))
     \<subseteq> fst ` set (snd ot) \<union> (if cfg_type (opt_config opt) \<noteq> None then {opt_name opt} else {})"
  by (auto simp: seedOption_def Let_def obj_set_keys split: option.splits)

lemma seedAll_get_none:
  assumes "\<forall>opt \<in> set cs. \<not> seeds ig opt n"
  shows "obj_get (fst (fold (seedOption ig) cs ot)) n = obj_get (fst ot) n"
  using assms
  by (induction cs arbitrary: ot) (simp_all add: seedOption_get)


lemma seedAll_keys: "fst ` set (fst ot) \<subseteq> fst ` set (fst (fold (seedOption ig) cs ot))"
proof (induction cs arbitrary: ot)
  case Nil
  show ?case by simp
next
  case (Cons c cs)
  have "fst ` set (fst ot) \<subseteq> fst ` set (fst (seedOption ig c ot))"
    by (rule seedOption_keys)
  also have "\<dots> \<subseteq> fst ` set (fst (fold (seedOption ig) cs (seedOption ig c ot)))"
    by (rule Cons.IH)
  finally show ?case by simp
qed

lemma seedAll_head:
  assumes "\<forall>opt \<in> set cs. \<not> seeds ig opt k0"
  shows "fold (seedOption ig) cs ((k0, x) # r, trs)
           = ((k0, x) # fst (fold (seedOption ig) cs (r, trs)), snd (fold (seedOption ig) cs (r, trs)))"
  using assms
proof (induction cs arbitrary: r trs)
  case Nil
  show ?case by simp
next
  case (Cons c cs)
  then have c: "\<not> seeds ig c k0" and cs: "\<forall>opt \<in> set cs. \<not> seeds ig opt k0"
    by simp_all
  obtain r' trs' where s: "seedOption ig c (r, trs) = (r', trs')"
    by (cases "seedOption ig c (r, trs)")
  with seedOption_head [OF c, of x r trs] have "seedOption ig c ((k0, x) # r, trs) = ((k0, x) # r', trs')"
    by simp
  with s Cons.IH [OF cs, of r' trs'] show ?case
    by simp
qed

lemma seedAll_transforms:
  "fst ` set (snd (fold (seedOption ig) cs ot))
     \<subseteq> fst ` set (snd ot) \<union> {opt_name opt |opt. opt \<in> set cs \<and> cfg_type (opt_config opt) \<noteq> None}"
proof (induction cs arbitrary: ot)
  case Nil
  show ?case by simp
next
  case (Cons c cs)
  let ?T = "\<lambda>xs. {opt_name opt |opt. opt \<in> set xs \<and> cfg_type (opt_config opt) \<noteq> None}"
  have "fst ` set (snd (fold (seedOption ig) cs (seedOption ig c ot)))
          \<subseteq> fst ` set (snd (seedOption ig c ot)) \<union> ?T cs"
    by (rule Cons.IH)
  also have "\<dots> \<subseteq> (fst ` set (snd ot)
                    \<union> (if cfg_type (opt_config c) \<noteq> None then {opt_name c} else {})) \<union> ?T cs"
    using seedOption_transforms [of ig c ot] by blast
  also have "\<dots> \<subseteq> fst ` set (snd ot) \<union> ?T (c # cs)"
    by auto
  finally show ?case by simp
qed

subsection \<open>One call of \<^verbatim>\<open>CAC.mri\<close>\<close>

lemma indexOf_None: "indexOf xs x = None \<longleftrightarrow> x \<notin> set xs"
  by (induction xs) (auto split: option.splits)

lemma indexOf_Some:
  "indexOf xs x = Some i \<Longrightarrow> i < length xs \<and> xs ! i = x \<and> x \<notin> set (take i xs)"
proof (induction xs arbitrary: i)
  case Nil
  then show ?case by simp
next
  case (Cons y ys)
  show ?case
  proof (cases "y = x")
    case True
    with Cons.prems show ?thesis by simp
  next
    case False
    with Cons.prems obtain j where j: "indexOf ys x = Some j" "i = Suc j"
      by (auto split: option.splits)
    with Cons.IH [OF j(1)] False show ?thesis by simp
  qed
qed

lemma doubleDashes_split:
  "(''--'' \<in> set argv \<longrightarrow> argv = argsBeforeDoubleDashes argv @ ''--'' # argsAfterDoubleDashesOf argv)
   \<and> ''--'' \<notin> set (argsBeforeDoubleDashes argv)
   \<and> (''--'' \<notin> set argv \<longrightarrow> argsAfterDoubleDashesOf argv = [])"
proof (cases "indexOf argv ''--''")
  case None
  then have "''--'' \<notin> set argv"
    by (simp add: indexOf_None)
  with None show ?thesis
    by (simp add: argsBeforeDoubleDashes_def argsAfterDoubleDashesOf_def)
next
  case (Some i)
  from indexOf_Some [OF Some] have i: "i < length argv" "argv ! i = ''--''" "''--'' \<notin> set (take i argv)"
    by simp_all
  then have "''--'' \<in> set argv"
    by (metis nth_mem)
  moreover from i have "argv = take i argv @ ''--'' # drop (i + 1) argv"
    using id_take_nth_drop [of i argv] by simp
  ultimately show ?thesis
    using Some i(3) by (simp add: argsBeforeDoubleDashes_def argsAfterDoubleDashesOf_def)
qed

lemma argsBefore_idem:
  "argsBeforeDoubleDashes (argsBeforeDoubleDashes argv) = argsBeforeDoubleDashes argv"
  "argsAfterDoubleDashesOf (argsBeforeDoubleDashes argv) = []"
proof -
  have "''--'' \<notin> set (argsBeforeDoubleDashes argv)"
    using doubleDashes_split by blast
  then have "indexOf (argsBeforeDoubleDashes argv) ''--'' = None"
    by (simp add: indexOf_None)
  then show "argsBeforeDoubleDashes (argsBeforeDoubleDashes argv) = argsBeforeDoubleDashes argv"
    "argsAfterDoubleDashesOf (argsBeforeDoubleDashes argv) = []"
    by (simp_all add: argsBeforeDoubleDashes_def argsAfterDoubleDashesOf_def)
qed

lemma tokenized_before: "tokenized cli command (argsBeforeDoubleDashes argv) = tokenized cli command argv"
  by (simp add: tokenized_def argsBefore_idem)

lemma parsedOf_before: "parsedOf cli command (argsBeforeDoubleDashes argv) = parsedOf cli command argv"
  by (simp add: parsedOf_def tokenized_before)

text \<open>The seeded options and the table of coercions of one call.\<close>

lemma mri_unfold:
  "mri cli st argv command =
     (fst (assignOptions st
             (fst (fold (seedOption (ignoreDefaultOf cli command)) (cliOptionsOf cli command)
                     ([(''--'', Val (VArr (map VStr (argsAfterDoubleDashesOf argv))))], [])))
             (snd (fold (seedOption (ignoreDefaultOf cli command)) (cliOptionsOf cli command)
                     ([(''--'', Val (VArr (map VStr (argsAfterDoubleDashesOf argv))))], [])))
             (parsedOf cli command argv)),
      \<lparr> pa_args = positional (tokenized cli command argv),
        pa_options =
          snd (assignOptions st
             (fst (fold (seedOption (ignoreDefaultOf cli command)) (cliOptionsOf cli command)
                     ([(''--'', Val (VArr (map VStr (argsAfterDoubleDashesOf argv))))], [])))
             (snd (fold (seedOption (ignoreDefaultOf cli command)) (cliOptionsOf cli command)
                     ([(''--'', Val (VArr (map VStr (argsAfterDoubleDashesOf argv))))], [])))
             (parsedOf cli command argv)) \<rparr>)"
  by (simp add: mri_def Let_def parsedOf_def)

lemma mri_has_passthrough: "''--'' \<in> fst ` set (pa_options (snd (mri cli st argv command)))"
proof -
  let ?o0 = "[(''--'', Val (VArr (map VStr (argsAfterDoubleDashesOf argv))))]"
  let ?ot = "fold (seedOption (ignoreDefaultOf cli command)) (cliOptionsOf cli command) (?o0, [])"
  have "''--'' \<in> fst ` set (fst (?o0, []::transforms))"
    by simp
  also have "\<dots> \<subseteq> fst ` set (fst ?ot)"
    by (rule seedAll_keys)
  also have "\<dots> \<subseteq> fst ` set (snd (assignOptions st (fst ?ot) (snd ?ot) (parsedOf cli command argv)))"
    by (rule assignOptions_keys)
  finally show ?thesis
    by (simp add: mri_unfold)
qed

lemma not_declared_transforms:
  assumes "\<forall>opt \<in> set cs. \<not> coerces opt k0"
  shows "k0 \<notin> fst ` set (snd (fold (seedOption ig) cs (o0, [])))"
proof
  assume "k0 \<in> fst ` set (snd (fold (seedOption ig) cs (o0, [])))"
  with seedAll_transforms [of ig cs "(o0, [])"]
  have "k0 \<in> {opt_name opt |opt. opt \<in> set cs \<and> cfg_type (opt_config opt) \<noteq> None}"
    by auto
  with assms show False
    by (auto simp: coerces_def)
qed

lemma mri_head:
  assumes d: "\<forall>opt \<in> set (cliOptionsOf cli command). \<not> declares opt ''--''"
    and u: "untouched ''--'' (parsedOf cli command argv)"
  shows "\<exists>r. mri cli st argv command
           = (fst (mri cli st (argsBeforeDoubleDashes argv) command),
              \<lparr> pa_args = pa_args (snd (mri cli st (argsBeforeDoubleDashes argv) command)),
                pa_options = (''--'', Val (VArr (map VStr (argsAfterDoubleDashesOf argv)))) # r \<rparr>)
         \<and> pa_options (snd (mri cli st (argsBeforeDoubleDashes argv) command))
             = (''--'', Val (VArr [])) # r"
proof -
  let ?ig = "ignoreDefaultOf cli command"
  let ?cs = "cliOptionsOf cli command"
  let ?p = "parsedOf cli command argv"
  let ?ot = "fold (seedOption ?ig) ?cs ([], [])"
  from d have ns: "\<forall>opt \<in> set ?cs. \<not> seeds ?ig opt ''--''"
    by (auto simp: seeds_def declares_def)
  from d have "\<forall>opt \<in> set ?cs. \<not> coerces opt ''--''"
    by (auto simp: coerces_def declares_def)
  then have nt: "''--'' \<notin> fst ` set (snd ?ot)"
    by (rule not_declared_transforms)
  have seed: "fold (seedOption ?ig) ?cs ([(''--'', x)], []) = ((''--'', x) # fst ?ot, snd ?ot)" for x
    by (rule seedAll_head [OF ns])
  have asg: "assignOptions st ((''--'', x) # fst ?ot) (snd ?ot) ?p
               = (fst (assignOptions st (fst ?ot) (snd ?ot) ?p),
                  (''--'', x) # snd (assignOptions st (fst ?ot) (snd ?ot) ?p))" for x
    by (rule assignOptions_head [OF u nt])
  show ?thesis
    by (rule exI [of _ "snd (assignOptions st (fst ?ot) (snd ?ot) ?p)"])
       (simp add: mri_unfold seed asg parsedOf_before tokenized_before argsBefore_idem)
qed

lemma obj_set_distinct: "distinct (map fst ps) \<Longrightarrow> distinct (map fst (obj_set ps k v))"
proof (induction ps)
  case Nil
  show ?case by simp
next
  case (Cons p ps)
  obtain a b where p: "p = (a, b)"
    by (cases p)
  from Cons.prems p have "a \<notin> fst ` set ps" "distinct (map fst ps)"
    by simp_all
  with Cons.IH p show ?case
    by (auto simp: obj_set_keys)
qed

lemma foldl_obj_set_distinct:
  "distinct (map fst acc) \<Longrightarrow>
     distinct (map fst (foldl (\<lambda>res nv. obj_set res (f (fst nv)) (snd nv)) acc fl))"
  by (induction fl arbitrary: acc) (simp_all add: obj_set_distinct)

lemma set_ownKeys: "set (ownKeys ps) = set ps"
  by (auto simp: ownKeys_def)

lemma insort_key_fst:
  "set (map fst (insort_key f x ys)) = insert (fst x) (set (map fst ys))
   \<and> (distinct (map fst (insort_key f x ys))
        \<longleftrightarrow> fst x \<notin> set (map fst ys) \<and> distinct (map fst ys))"
  by (induction ys) auto

lemma sort_key_fst:
  "set (map fst (sort_key f xs)) = set (map fst xs)
   \<and> (distinct (map fst (sort_key f xs)) \<longleftrightarrow> distinct (map fst xs))"
proof (induction xs)
  case Nil
  show ?case by simp
next
  case (Cons x xs)
  have "sort_key f (x # xs) = insort_key f x (sort_key f xs)"
    by simp
  with Cons insort_key_fst [of f x "sort_key f xs"] show ?case
    by simp
qed

lemma distinct_ownKeys:
  assumes "distinct (map fst ps)"
  shows "distinct (map fst (ownKeys ps))"
proof -
  let ?P = "\<lambda>kv. is_array_index (fst kv)"
  let ?f = "\<lambda>kv. index_value (fst kv)"
  have d1: "distinct (map fst (filter ?P ps))"
    using assms by (rule distinct_map_filter)
  have d2: "distinct (map fst (filter (\<lambda>kv. \<not> ?P kv) ps))"
    using assms by (rule distinct_map_filter)
  have s: "set (map fst (sort_key ?f (filter ?P ps))) = set (map fst (filter ?P ps))"
    using sort_key_fst [of ?f "filter ?P ps"] by simp
  have d: "distinct (map fst (sort_key ?f (filter ?P ps)))"
    using sort_key_fst [of ?f "filter ?P ps"] d1 by simp
  have "set (map fst (filter ?P ps)) \<inter> set (map fst (filter (\<lambda>kv. \<not> ?P kv) ps)) = {}"
    by auto
  with s d d2 show ?thesis
    unfolding ownKeys_def map_append distinct_append by blast
qed

lemma parsedOf_distinct: "distinct (map fst (parsedOf cli command argv))"
  unfolding parsedOf_def camelcaseKeys_def
  by (rule distinct_ownKeys) (simp add: foldl_obj_set_distinct)


lemma untouched_Cons: "untouched k0 (kv # kvs) \<longleftrightarrow> hd (split_on CHR ''.'' (fst kv)) \<noteq> k0 \<and> untouched k0 kvs"
  by (simp add: untouched_def)



section \<open>Paths that part\<close>

lemma get_path_empty: "get_path [] p = None"
  by (cases "([]::obj, p)" rule: get_path.cases) (simp_all add: obj_get_def)

lemma get_path_frame:
  "incomparable p q \<Longrightarrow> get_path (set_path t q w) p = get_path t p"
proof (induction t q w arbitrary: p rule: set_path.induct)
  case (1 t v)
  then show ?case by (simp add: incomparable_def)
next
  case (2 t k v)
  then show ?case
    by (cases "(t, p)" rule: get_path.cases)
       (auto simp: incomparable_def obj_get_set_other)
next
  case (3 t k k' ks v)
  show ?case
  proof (cases "(t, p)" rule: get_path.cases)
    case (1 u)
    with 3 show ?thesis by (simp add: incomparable_def)
  next
    case (2 u j)
    with "3.prems" show ?thesis
      by (auto simp: incomparable_def obj_get_set_other)
  next
    case (3 u j j' js)
    show ?thesis
    proof (cases "j = k")
      case False
      with 3 show ?thesis
        by (simp add: obj_get_set_other)
    next
      case True
      with 3 "3.prems" have inc: "incomparable (j' # js) (k' # ks)"
        by (simp add: incomparable_def)
      from "3.IH" [OF inc] True 3 show ?thesis
        by (auto simp: obj_get_set_same get_path_empty split: option.splits val.splits)
    qed
  qed
qed

lemma join_split: "join_dot (split_on CHR ''.'' s) = s"
proof (induction s)
  case Nil
  show ?case by simp
next
  case (Cons x xs)
  obtain p ps where sp: "split_on CHR ''.'' xs = p # ps"
    using split_on_nonempty [of "CHR ''.''" xs] by (cases "split_on CHR ''.'' xs") auto
  with Cons.IH have j: "join_dot (p # ps) = xs"
    by simp
  show ?case
  proof (cases "x = CHR ''.''")
    case True
    with sp j show ?thesis by simp
  next
    case False
    with sp j show ?thesis
      by (cases ps) auto
  qed
qed

lemma split_on_inj: "split_on CHR ''.'' s = split_on CHR ''.'' t \<Longrightarrow> s = t"
  by (metis join_split)

lemma distinct_paths:
  "distinct (map fst kvs) \<Longrightarrow> distinct (map (\<lambda>kv. split_on CHR ''.'' (fst kv)) kvs)"
proof (induction kvs)
  case Nil
  show ?case by simp
next
  case (Cons kv rest)
  have "split_on CHR ''.'' (fst kv) \<noteq> split_on CHR ''.'' (fst x)" if "x \<in> set rest" for x
  proof
    assume "split_on CHR ''.'' (fst kv) = split_on CHR ''.'' (fst x)"
    then have "fst kv = fst x"
      by (rule split_on_inj)
    with that Cons.prems show False
      by auto
  qed
  with Cons show ?case
    by auto
qed

subsection \<open>The entry under one name\<close>

lemma obj_get_single: "obj_get [(n, x)] n = Some x" "obj_get [] n = None"
  by (simp_all add: obj_get_def)

lemma plain_Val: "plain (obj_set opts n (Val x)) n"
  by (simp add: plain_def obj_get_set_same)

lemma slot_setDotProp_same:
  assumes "plain opts n" and "keys \<noteq> []" and "hd keys = n"
  shows "slot_obj (snd (setDotProp st opts keys v)) n = set_path (slot_obj opts n) keys v
         \<and> plain (snd (setDotProp st opts keys v)) n"
proof (cases keys)
  case Nil
  with assms show ?thesis by simp
next
  case (Cons k ks)
  with assms have k: "k = n" by simp
  show ?thesis
  proof (cases ks)
    case Nil
    with Cons k show ?thesis
      by (auto simp: setDotProp_def slot_obj_def plain_def obj_get_set_same
               split: option.splits oval.splits)
  next
    case (Cons k' ks')
    with \<open>keys = k # ks\<close> k assms(1) show ?thesis
      by (cases "obj_get opts n")
         (auto simp: setDotProp_def slot_obj_def plain_def obj_get_set_same obj_get_single
               split: oval.splits val.splits)
  qed
qed

lemma slot_setDotProp_other:
  assumes "keys \<noteq> []" and "hd keys \<noteq> n"
  shows "slot_obj (snd (setDotProp st opts keys v)) n = slot_obj opts n
         \<and> plain (snd (setDotProp st opts keys v)) n = plain opts n"
  using setDotProp_other [OF assms, of st opts v]
  by (simp add: slot_obj_def plain_def)

lemma slot_setByType:
  assumes "n \<notin> fst ` set trs"
  shows "slot_obj (setByType st opts trs) n = slot_obj opts n
         \<and> plain (setByType st opts trs) n = plain opts n"
  using setByType_other [OF assms, of st opts]
  by (simp add: slot_obj_def plain_def)

lemma getDotProp_slot:
  assumes "plain opts n" and "keys \<noteq> []" and "hd keys = n"
  shows "getDotProp st opts keys = get_path (slot_obj opts n) keys"
proof (cases keys)
  case Nil
  with assms show ?thesis by simp
next
  case (Cons k ks)
  with assms have k: "k = n" by simp
  show ?thesis
  proof (cases ks)
    case Nil
    with Cons k assms(1) show ?thesis
      by (auto simp: getDotProp_def slot_obj_def plain_def obj_get_def
               split: option.splits oval.splits)
  next
    case (Cons k' ks')
    with \<open>keys = k # ks\<close> k assms(1) show ?thesis
      by (auto simp: getDotProp_def slot_obj_def plain_def obj_get_def
               split: option.splits oval.splits val.splits)
  qed
qed

text \<open>One round of the loop of lines 314 to 320, seen at the name \<open>n\<close>.\<close>

lemma round_slot:
  assumes "n \<notin> fst ` set trs" and "plain opts n"
  shows "plain (setByType (fst (setDotProp st opts (split_on CHR ''.'' k) v))
                          (snd (setDotProp st opts (split_on CHR ''.'' k) v)) trs) n
         \<and> slot_obj (setByType (fst (setDotProp st opts (split_on CHR ''.'' k) v))
                                (snd (setDotProp st opts (split_on CHR ''.'' k) v)) trs) n
           = (if hd (split_on CHR ''.'' k) = n then set_path (slot_obj opts n) (split_on CHR ''.'' k) v
              else slot_obj opts n)"
proof (cases "hd (split_on CHR ''.'' k) = n")
  case True
  from slot_setDotProp_same [OF assms(2) split_on_nonempty True, of st v] slot_setByType [OF assms(1)] True
  show ?thesis by simp
next
  case False
  from slot_setDotProp_other [OF split_on_nonempty False, of st opts v] slot_setByType [OF assms(1)]
       assms(2) False
  show ?thesis by simp
qed

lemma loop_plain:
  assumes "n \<notin> fst ` set trs"
  shows "plain opts n \<Longrightarrow> plain (snd (assignOptions st opts trs kvs)) n"
proof (induction kvs arbitrary: st opts)
  case Nil
  then show ?case by simp
next
  case (Cons kv rest)
  show ?case
  proof (cases "fst kv = ''_''")
    case True
    with Cons show ?thesis by simp
  next
    case False
    from round_slot [OF assms Cons.prems, of st "fst kv" "snd kv"]
    have "plain (setByType (fst (setDotProp st opts (split_on CHR ''.'' (fst kv)) (snd kv)))
                           (snd (setDotProp st opts (split_on CHR ''.'' (fst kv)) (snd kv))) trs) n"
      by simp
    from Cons.IH [OF this] False show ?thesis
      by (simp add: Let_def)
  qed
qed

lemma loop_keep:
  assumes "n \<notin> fst ` set trs"
  shows "plain opts n \<Longrightarrow>
         list_all (\<lambda>kv. incomparable p (split_on CHR ''.'' (fst kv))) kvs \<Longrightarrow>
         get_path (slot_obj (snd (assignOptions st opts trs kvs)) n) p = get_path (slot_obj opts n) p"
proof (induction kvs arbitrary: st opts)
  case Nil
  then show ?case by simp
next
  case (Cons kv rest)
  from Cons.prems(2) have inc: "incomparable p (split_on CHR ''.'' (fst kv))"
    and r: "list_all (\<lambda>kv. incomparable p (split_on CHR ''.'' (fst kv))) rest"
    by simp_all
  show ?case
  proof (cases "fst kv = ''_''")
    case True
    with Cons.IH [OF Cons.prems(1) r] show ?thesis by simp
  next
    case False
    let ?o = "setByType (fst (setDotProp st opts (split_on CHR ''.'' (fst kv)) (snd kv)))
                        (snd (setDotProp st opts (split_on CHR ''.'' (fst kv)) (snd kv))) trs"
    from round_slot [OF assms Cons.prems(1), of st "fst kv" "snd kv"]
    have pl: "plain ?o n"
      and sl: "slot_obj ?o n
                 = (if hd (split_on CHR ''.'' (fst kv)) = n
                    then set_path (slot_obj opts n) (split_on CHR ''.'' (fst kv)) (snd kv)
                    else slot_obj opts n)"
      by simp_all
    from sl inc have "get_path (slot_obj ?o n) p = get_path (slot_obj opts n) p"
      by (simp add: get_path_frame)
    with Cons.IH [OF pl r] False show ?thesis
      by (simp add: Let_def)
  qed
qed

lemma loop_read:
  assumes "n \<notin> fst ` set trs" and "k \<noteq> ''_''" and "hd (split_on CHR ''.'' k) = n"
  shows "plain opts n \<Longrightarrow> distinct (map fst kvs) \<Longrightarrow> (k, v) \<in> set kvs \<Longrightarrow> pathsApart k kvs \<Longrightarrow>
         get_path (slot_obj (snd (assignOptions st opts trs kvs)) n) (split_on CHR ''.'' k) = Some v"
proof (induction kvs arbitrary: st opts)
  case Nil
  then show ?case by simp
next
  case (Cons kv rest)
  let ?o = "setByType (fst (setDotProp st opts (split_on CHR ''.'' (fst kv)) (snd kv)))
                      (snd (setDotProp st opts (split_on CHR ''.'' (fst kv)) (snd kv))) trs"
  let ?st = "fst (setDotProp st opts (split_on CHR ''.'' (fst kv)) (snd kv))"
  from round_slot [OF assms(1) Cons.prems(1), of st "fst kv" "snd kv"]
  have pl: "plain ?o n"
    and sl: "slot_obj ?o n
               = (if hd (split_on CHR ''.'' (fst kv)) = n
                  then set_path (slot_obj opts n) (split_on CHR ''.'' (fst kv)) (snd kv)
                  else slot_obj opts n)"
    by simp_all
  show ?case
  proof (cases "fst kv = k")
    case True
    with Cons.prems(2) have nr: "k \<notin> fst ` set rest"
      by simp
    with Cons.prems(3) True have kv: "kv = (k, v)"
      by (cases kv) (auto simp: image_iff)
    have "incomparable (split_on CHR ''.'' k) (split_on CHR ''.'' (fst x))" if "x \<in> set rest" for x
    proof -
      from that nr have "fst x \<noteq> k"
        by auto
      moreover from that Cons.prems(4)
      have "fst x = k \<or> incomparable (split_on CHR ''.'' k) (split_on CHR ''.'' (fst x))"
        by (simp add: pathsApart_def list_all_iff)
      ultimately show ?thesis
        by simp
    qed
    then have "list_all (\<lambda>kv. incomparable (split_on CHR ''.'' k) (split_on CHR ''.'' (fst kv))) rest"
      by (simp add: list_all_iff)
    from loop_keep [OF assms(1) pl this, of ?st]
    have "get_path (slot_obj (snd (assignOptions ?st ?o trs rest)) n) (split_on CHR ''.'' k)
            = get_path (slot_obj ?o n) (split_on CHR ''.'' k)" .
    also from sl kv assms(3) have "\<dots> = get_path (set_path (slot_obj opts n) (split_on CHR ''.'' k) v) (split_on CHR ''.'' k)"
      by simp
    also have "\<dots> = Some v"
      by (simp add: get_path_set_path split_on_nonempty)
    finally show ?thesis
      using kv assms(2) by (simp add: Let_def)
  next
    case False
    with Cons.prems have d: "distinct (map fst rest)" and m: "(k, v) \<in> set rest"
      and a: "pathsApart k rest"
      by (auto simp: pathsApart_def)
    from Cons.IH [OF pl d m a, of ?st] Cons.IH [OF Cons.prems(1) d m a, of st] show ?thesis
      by (cases "fst kv = ''_''") (simp_all add: Let_def)
  qed
qed

section \<open>Command matching\<close>

text \<open>
  C1, as the code has it. Matching binds at most one command. Every registered
  command is tried, in registration order, each with its own tokenization, and neither
  loop stops at a match: the command bound is the last registered one that matches the
  first positional token, else the last registered default command, else none. With
  the commands \<^verbatim>\<open>build\<close> and a default command registered in either order, a first
  positional token \<^verbatim>\<open>build\<close> binds \<^verbatim>\<open>build\<close> and any other binds the default
  command; with \<^verbatim>\<open>build\<close> alone, any other binds no command.
\<close>

theorem last_matching_command_bound:
  "matchedCommand (snd (matchCommand cli argv st (initialCntx getFileName cli e argv)))
     = (if matching cli argv \<noteq> [] then Some (last (matching cli argv))
        else if defaultCommands cli \<noteq> [] then Some (last (defaultCommands cli))
        else None)
   \<and> (cmd_name b = ''build'' \<and> cmd_name d = [] \<and> (commands cli = [b, d] \<or> commands cli = [d, b])
        \<and> candidateName cli argv b = Some ''build''
      \<longrightarrow> matchedCommand (snd (matchCommand cli argv st (initialCntx getFileName cli e argv))) = Some b)
   \<and> (cmd_name b = ''build'' \<and> cmd_name d = [] \<and> (commands cli = [b, d] \<or> commands cli = [d, b])
        \<and> candidateName cli argv b \<noteq> Some ''build''
      \<longrightarrow> matchedCommand (snd (matchCommand cli argv st (initialCntx getFileName cli e argv))) = Some d)
   \<and> (cmd_name b = ''build'' \<and> commands cli = [b] \<and> candidateName cli argv b \<noteq> Some ''build''
      \<longrightarrow> matchedCommand (snd (matchCommand cli argv st (initialCntx getFileName cli e argv))) = None)"
proof -
  have general:
    "matchedCommand (snd (matchCommand cli argv st (initialCntx getFileName cli e argv)))
       = (if matching cli argv \<noteq> [] then Some (last (matching cli argv))
          else if defaultCommands cli \<noteq> [] then Some (last (defaultCommands cli))
          else None)"
    by (simp add: matchCommand_matched initialCntx_def)
  moreover have "matching cli argv = [b]" "defaultCommands cli = [d]"
    if "cmd_name b = ''build''" "cmd_name d = []" "commands cli = [b, d] \<or> commands cli = [d, b]"
       "candidateName cli argv b = Some ''build''"
    using that by (auto simp: matching_def defaultCommands_def isMatched_def)
  moreover have "matching cli argv = []" "defaultCommands cli = [d]"
    if "cmd_name b = ''build''" "cmd_name d = []" "commands cli = [b, d] \<or> commands cli = [d, b]"
       "candidateName cli argv b \<noteq> Some ''build''"
    using that by (auto simp: matching_def defaultCommands_def isMatched_def)
  moreover have "matching cli argv = []" "defaultCommands cli = []"
    if "cmd_name b = ''build''" "commands cli = [b]" "candidateName cli argv b \<noteq> Some ''build''"
    using that by (auto simp: matching_def defaultCommands_def isMatched_def)
  ultimately show ?thesis
    by simp
qed

theorem last_matching_command_bound_witness:
  "cmd_name build_command = ''build'' \<and> cmd_name default_command = []
   \<and> commands default_first_cli = [default_command, build_command]
   \<and> candidateName default_first_cli build_argv build_command = Some ''build''
   \<and> matchedCommand (snd (matchCommand default_first_cli build_argv Map.empty
                             (initialCntx fileNameOf default_first_cli () build_argv)))
       = Some build_command
   \<and> candidateName default_first_cli deploy_argv build_command \<noteq> Some ''build''
   \<and> matchedCommand (snd (matchCommand default_first_cli deploy_argv Map.empty
                             (initialCntx fileNameOf default_first_cli () deploy_argv)))
       = Some default_command"
proof -
  have n: "cmd_name build_command = ''build''" "cmd_name default_command = []"
    by code_simp+
  have c: "commands default_first_cli = [default_command, build_command]"
    by (simp add: default_first_cli_def program_def)
  have f: "candidateName default_first_cli build_argv build_command = Some ''build''"
    by code_simp
  have g: "candidateName default_first_cli deploy_argv build_command \<noteq> Some ''build''"
    by code_simp
  from last_matching_command_bound
         [of default_first_cli build_argv Map.empty fileNameOf "()" build_command default_command,
          THEN conjunct2, THEN conjunct1] n c f
  have t1: "matchedCommand (snd (matchCommand default_first_cli build_argv Map.empty
                                   (initialCntx fileNameOf default_first_cli () build_argv)))
              = Some build_command"
    by simp
  from last_matching_command_bound
         [of default_first_cli deploy_argv Map.empty fileNameOf "()" build_command default_command,
          THEN conjunct2, THEN conjunct2, THEN conjunct1] n c g
  have t2: "matchedCommand (snd (matchCommand default_first_cli deploy_argv Map.empty
                                   (initialCntx fileNameOf default_first_cli () deploy_argv)))
              = Some default_command"
    by simp
  from n c f g t1 t2 show ?thesis
    by (intro conjI)
qed

text \<open>
  C1 as stated fails where two registered commands match: the loop of lines 191 to 204
  has no \<^verbatim>\<open>break\<close>, so a later match overwrites an earlier one. Of two commands
  registered as \<^verbatim>\<open>build\<close>, the first is the first one whose name equals the first
  positional token, and the second is bound.
\<close>

theorem first_match_counterexample:
  "map cmd_name (commands twice_cli) = [''build'', ''build'']
   \<and> map optionNames (commands twice_cli) = [[], [''watch'']]
   \<and> candidateName twice_cli build_argv (commands twice_cli ! 0) = Some ''build''
   \<and> isMatched (commands twice_cli ! 0) (candidateName twice_cli build_argv (commands twice_cli ! 0))
   \<and> map_option optionNames (matchedCommand twice_matched) = Some [''watch'']"
  by code_simp

section \<open>The passthrough tail\<close>

text \<open>
  C2, as the code has it. The options mapping that \<^verbatim>\<open>CAC.mri\<close> returns always has the
  key \<^verbatim>\<open>--\<close>. If no declared option in scope carries the name \<^verbatim>\<open>--\<close> and no raw key
  has \<^verbatim>\<open>--\<close> as the first segment of its dot path, the value under that key is the
  sequence of the tokens after the first standalone \<^verbatim>\<open>--\<close>, verbatim and in order, and
  the empty sequence if there is none; the positional arguments and every other entry
  of the options mapping are those of the tokens before it alone, so no token of the
  tail becomes a positional or an option key.
\<close>

theorem passthrough_tail:
  "''--'' \<in> fst ` set (pa_options (snd (mri cli st argv command)))
   \<and> ((\<forall>opt \<in> set (cliOptionsOf cli command). \<not> declares opt ''--'')
        \<and> untouched ''--'' (parsedOf cli command argv)
      \<longrightarrow> obj_get (pa_options (snd (mri cli st argv command))) ''--''
            = Some (Val (VArr (map VStr (argsAfterDoubleDashesOf argv))))
          \<and> pa_options (snd (mri cli st argv command))
            = obj_set (pa_options (snd (mri cli st (argsBeforeDoubleDashes argv) command))) ''--''
                (Val (VArr (map VStr (argsAfterDoubleDashesOf argv))))
          \<and> pa_args (snd (mri cli st argv command))
            = pa_args (snd (mri cli st (argsBeforeDoubleDashes argv) command)))
   \<and> (''--'' \<in> set argv \<longrightarrow> argv = argsBeforeDoubleDashes argv @ ''--'' # argsAfterDoubleDashesOf argv)
   \<and> ''--'' \<notin> set (argsBeforeDoubleDashes argv)
   \<and> (''--'' \<notin> set argv \<longrightarrow> argsAfterDoubleDashesOf argv = [])"
proof -
  have "obj_get (pa_options (snd (mri cli st argv command))) ''--''
            = Some (Val (VArr (map VStr (argsAfterDoubleDashesOf argv))))
          \<and> pa_options (snd (mri cli st argv command))
            = obj_set (pa_options (snd (mri cli st (argsBeforeDoubleDashes argv) command))) ''--''
                (Val (VArr (map VStr (argsAfterDoubleDashesOf argv))))
          \<and> pa_args (snd (mri cli st argv command))
            = pa_args (snd (mri cli st (argsBeforeDoubleDashes argv) command))"
    if "\<forall>opt \<in> set (cliOptionsOf cli command). \<not> declares opt ''--''"
      and "untouched ''--'' (parsedOf cli command argv)"
  proof -
    from mri_head [OF that, of st] obtain r where
      "mri cli st argv command
           = (fst (mri cli st (argsBeforeDoubleDashes argv) command),
              \<lparr> pa_args = pa_args (snd (mri cli st (argsBeforeDoubleDashes argv) command)),
                pa_options = (''--'', Val (VArr (map VStr (argsAfterDoubleDashesOf argv)))) # r \<rparr>)"
      "pa_options (snd (mri cli st (argsBeforeDoubleDashes argv) command)) = (''--'', Val (VArr [])) # r"
      by blast
    then show ?thesis
      by (simp add: obj_get_def)
  qed
  with mri_has_passthrough [of cli st argv command] doubleDashes_split [of argv] show ?thesis
    by blast
qed

theorem passthrough_tail_witness:
  "list_all (\<lambda>opt. \<not> declares opt ''--'') (cliOptionsOf rm_cli (Some rm_command))
   \<and> untouched ''--'' (parsedOf rm_cli (Some rm_command) tail_argv)
   \<and> obj_get (pa_options (snd (mri rm_cli Map.empty tail_argv (Some rm_command)))) ''--''
       = Some (Val (VArr [VStr ''x'', VStr ''--y'']))
   \<and> pa_args (snd (mri rm_cli Map.empty tail_argv (Some rm_command)))
       = pa_args (snd (mri rm_cli Map.empty [''rm'', ''a/b'', ''-r''] (Some rm_command)))"
proof -
  have l: "list_all (\<lambda>opt. \<not> declares opt ''--'') (cliOptionsOf rm_cli (Some rm_command))"
    by code_simp
  then have h: "\<forall>opt \<in> set (cliOptionsOf rm_cli (Some rm_command)). \<not> declares opt ''--''"
    by (simp add: list_all_iff)
  have u: "untouched ''--'' (parsedOf rm_cli (Some rm_command) tail_argv)"
    by code_simp
  have a: "argsAfterDoubleDashesOf tail_argv = [''x'', ''--y'']"
    "argsBeforeDoubleDashes tail_argv = [''rm'', ''a/b'', ''-r'']"
    by code_simp+
  from passthrough_tail [of rm_cli Map.empty tail_argv "Some rm_command", THEN conjunct2, THEN conjunct1]
       h u a
  have "obj_get (pa_options (snd (mri rm_cli Map.empty tail_argv (Some rm_command)))) ''--''
          = Some (Val (VArr [VStr ''x'', VStr ''--y'']))
        \<and> pa_args (snd (mri rm_cli Map.empty tail_argv (Some rm_command)))
          = pa_args (snd (mri rm_cli Map.empty [''rm'', ''a/b'', ''-r''] (Some rm_command)))"
    by (simp add: obj_get_set_same)
  with l u show ?thesis
    by simp
qed

text \<open>
  C2 as stated fails: the key \<^verbatim>\<open>--\<close> is an ordinary key of the mapping, and line 297
  writes a declared default under every name of an option. With an option declared
  under the name \<^verbatim>\<open>--\<close> and the default \<^verbatim>\<open>x\<close>, the tokens \<^verbatim>\<open>a -- y\<close> leave \<^verbatim>\<open>x\<close>
  under the reserved key, not the tail.
\<close>

theorem passthrough_counterexample:
  "argsAfterDoubleDashesOf (drop 2 reserved_argv) = [''y'']
   \<and> obj_get (options (the (returned reserved_run))) ''--'' = Some (Val (VStr ''x''))"
  by code_simp

section \<open>Default values\<close>




section \<open>Dispatch\<close>

text \<open>
  C4. When \<^verbatim>\<open>parse\<close> runs with \<open>run\<close> set and returns a context with a matched command
  that has a handler, the field \<open>result\<close> holds the value of the handler at the list
  \<^verbatim>\<open>[env, ...positionals, options]\<close>: the positional at index \<open>i\<close> is the sequence of
  the positional tokens from \<open>i\<close> on if the declared positional is variadic, and
  otherwise the \<open>i\<close>-th positional token, \<^verbatim>\<open>undefined\<close> if there is none.
\<close>

theorem dispatch_arguments:
  assumes "parse getFileName cli st e argv True = (st', Inr c)"
    and "matchedCommand c = Some command"
    and "commandAction command = Some act"
  shows "result c =
           Some (act (AEnv e #
                      map (\<lambda>i. if arg_variadic (cmd_args command ! i)
                                then APos (VArr (map VStr (drop i (args c))))
                                else APos (if i < length (args c) then VStr (args c ! i)
                                           else VUndef))
                          [0..<length (cmd_args command)]
                      @ [AOpts (options c)]))"
proof -
  let ?c1 = "snd (matchCommand cli argv st (initialCntx getFileName cli e argv))"
  let ?c2 = "fst (versionStep cli (helpStep cli (?c1, True)))"
  have fr: "cntx_frame ?c2 = cntx_frame (initialCntx getFileName cli e argv)"
    by (rule frame_steps)
  from assms(1) show ?thesis
  proof (cases rule: parse_returns_cases)
    case skipped
    then have "c = unsetMatchedCommand ?c1"
      by (simp add: steps_skipped_unset)
    with assms(2) show ?thesis
      by (simp add: unsetMatchedCommand_def)
  next
    case (ran r)
    from ran(3) assms(2) have mc: "matchedCommand ?c2 = Some command"
      by simp
    from runMatchedCommand_Inr [OF ran(2) mc assms(3)]
    have "r = act (actionArgsOf ?c2 command)" .
    moreover from ran(3) have "actionArgsOf ?c2 command = actionArgsOf c command"
      by (simp add: actionArgsOf_def)
    moreover from fr ran(3) have "env c = e"
      by (simp add: cntx_frame_def initialCntx_def)
    moreover from ran(3) have "result c = Some r"
      by simp
    ultimately have "result c = Some (act (actionArgsOf c command))" "env c = e"
      by simp_all
    then show ?thesis
      by (simp add: actionArgsOf_expand)
  qed
qed

theorem dispatch_arguments_witness:
  "returned copy_run \<noteq> None
   \<and> matchedCommand copy_cntx \<noteq> None
   \<and> commandAction (the (matchedCommand copy_cntx)) \<noteq> None
   \<and> result copy_cntx =
       Some (the (commandAction (the (matchedCommand copy_cntx)))
              (AEnv () #
               map (\<lambda>i. if arg_variadic (cmd_args (the (matchedCommand copy_cntx)) ! i)
                         then APos (VArr (map VStr (drop i (args copy_cntx))))
                         else APos (if i < length (args copy_cntx) then VStr (args copy_cntx ! i)
                                    else VUndef))
                   [0..<length (cmd_args (the (matchedCommand copy_cntx)))]
               @ [AOpts (options copy_cntx)]))
   \<and> result copy_cntx = Some (VArr [VStr ''a'', VUndef, VArr []])"
proof -
  have ret: "returned copy_run \<noteq> None"
    by code_simp
  then obtain st' c where p: "copy_run = (st', Inr c)"
    by (rule returned_SomeE)
  have "copy_cntx = c"
    unfolding copy_cntx_def returned_def p by simp
  with p have p': "parse fileNameOf copy_cli Map.empty () [''node'', ''cli'', ''copy'', ''a''] True
                     = (st', Inr copy_cntx)"
    by (simp add: copy_run_def)
  have m: "matchedCommand copy_cntx \<noteq> None"
    by code_simp
  then obtain command where mc: "matchedCommand copy_cntx = Some command"
    by auto
  have a: "commandAction (the (matchedCommand copy_cntx)) \<noteq> None"
    by code_simp
  then obtain act where ca: "commandAction command = Some act"
    using mc by auto
  have v: "result copy_cntx = Some (VArr [VStr ''a'', VUndef, VArr []])"
    by code_simp
  from dispatch_arguments [OF p' mc ca] ret v mc ca show ?thesis
    by simp
qed

section \<open>Help and version flags\<close>

text \<open>
  C5, as the code has it. If, after matching, the options hold a set help flag and the
  help feature is enabled, or they hold a set version flag, the version feature is
  enabled and matching has bound no command name, then \<^verbatim>\<open>parse\<close> returns without
  dispatching: no validation error is raised, the field \<open>result\<close> stays unset, and
  \<open>matchedCommand\<close> and \<open>matchedCommandName\<close> are cleared, whatever \<open>run\<close> is and
  whether or not a command had matched.
\<close>

theorem help_version_skip_dispatch:
  assumes "c1 = snd (matchCommand cli argv st (initialCntx getFileName cli e argv))"
    and "(truthy_oval (obj_get (options c1) ''help'') \<and> showHelpOnExit cli)
         \<or> (truthy_oval (obj_get (options c1) ''version'') \<and> showVersionOnExit cli
             \<and> matchedCommandName c1 = None)"
  shows "snd (parse getFileName cli st e argv run) = Inr (unsetMatchedCommand c1)
         \<and> result (unsetMatchedCommand c1) = None
         \<and> matchedCommand (unsetMatchedCommand c1) = None
         \<and> matchedCommandName (unsetMatchedCommand c1) = None"
proof -
  have "versionStep cli (helpStep cli (c1, run)) = (unsetMatchedCommand c1, False)"
    using assms(2) by (rule steps_fire)
  then have "snd (parse getFileName cli st e argv run) = Inr (unsetMatchedCommand c1)"
    using assms(1) by (simp add: parse_def Let_def)
  moreover have "cntx_frame c1 = cntx_frame (initialCntx getFileName cli e argv)"
    using assms(1) by (simp add: frame_matchCommand)
  then have "result (unsetMatchedCommand c1) = None"
    by (simp add: cntx_frame_def initialCntx_def unsetMatchedCommand_def)
  ultimately show ?thesis
    by (simp add: unsetMatchedCommand_def)
qed

theorem help_version_skip_dispatch_witness:
  "(truthy_oval (obj_get (options help_matched) ''help'') \<and> showHelpOnExit rm_cli)
   \<and> matchedCommand help_matched \<noteq> None
   \<and> snd (parse fileNameOf rm_cli Map.empty () help_argv True) = Inr (unsetMatchedCommand help_matched)
   \<and> result (unsetMatchedCommand help_matched) = None
   \<and> matchedCommand (unsetMatchedCommand help_matched) = None
   \<and> matchedCommandName (unsetMatchedCommand help_matched) = None"
proof -
  have h: "truthy_oval (obj_get (options help_matched) ''help'') \<and> showHelpOnExit rm_cli"
    by code_simp
  have m: "matchedCommand help_matched \<noteq> None"
    by code_simp
  from h have "(truthy_oval (obj_get (options help_matched) ''help'') \<and> showHelpOnExit rm_cli)
         \<or> (truthy_oval (obj_get (options help_matched) ''version'') \<and> showVersionOnExit rm_cli
             \<and> matchedCommandName help_matched = None)"
    by simp
  from help_version_skip_dispatch [OF help_matched_def this, of True] h m show ?thesis
    by simp
qed

text \<open>
  C5 as stated fails for the version flag: line 232 asks for \<^verbatim>\<open>cntx.matchedCommandName == null\<close>.
  With the command \<^verbatim>\<open>build\<close> matched, \<^verbatim>\<open>build --version\<close> runs the handler and keeps the
  matched command, although the version flag is set and the feature is enabled.
\<close>

theorem version_flag_counterexample:
  "returned version_run \<noteq> None
   \<and> truthy_oval (obj_get (options (the (returned version_run))) ''version'')
   \<and> showVersionOnExit version_cli
   \<and> result (the (returned version_run)) = Some (VStr ''built'')
   \<and> map_option cmd_name (matchedCommand (the (returned version_run))) = Some ''build''
   \<and> matchedCommandName (the (returned version_run)) = Some ''build''"
  by code_simp

section \<open>Unknown options\<close>

text \<open>
  C6, as the code has it. When \<^verbatim>\<open>parse\<close> dispatches (\<open>run\<close> is set and neither the help
  nor the version step applies), the matched command has a handler and its
  configuration does not allow unknown options, then an option key other than \<^verbatim>\<open>--\<close>
  that is declared neither globally nor by the matched command makes \<^verbatim>\<open>parse\<close> throw
  an unknown-option error that names such a key, before the handler is applied.
\<close>

theorem unknown_option_raised:
  assumes "c1 = snd (matchCommand cli argv st (initialCntx getFileName cli e argv))"
    and "\<not> (truthy_oval (obj_get (options c1) ''help'') \<and> showHelpOnExit cli)"
    and "\<not> (truthy_oval (obj_get (options c1) ''version'') \<and> showVersionOnExit cli
             \<and> matchedCommandName c1 = None)"
    and "matchedCommand c1 = Some command"
    and "commandAction command = Some act"
    and "\<not> allowUnknownOptions (cmd_config command)"
    and "k \<in> fst ` set (options c1)"
    and "k \<noteq> ''--''"
    and "k \<notin> set (declaredNames (globalCommand cli) command)"
  shows "\<exists>k'. snd (parse getFileName cli st e argv True) = Inl (UnknownOption k')
              \<and> k' \<in> fst ` set (options c1) \<and> k' \<noteq> ''--''
              \<and> k' \<notin> set (declaredNames (globalCommand cli) command)"
proof -
  let ?unknown = "filter (\<lambda>k. k \<noteq> ''--'' \<and> k \<notin> set (declaredNames (globalCommand cli) command))
                         (map fst (options c1))"
  from assms(7-9) have "k \<in> set ?unknown"
    by auto
  then obtain k' ks where u: "?unknown = k' # ks"
    by (cases ?unknown) auto
  then have "k' \<in> set ?unknown"
    by simp
  then have k': "k' \<in> fst ` set (options c1)" "k' \<noteq> ''--''"
      "k' \<notin> set (declaredNames (globalCommand cli) command)"
    by auto
  from u assms(6) have "checkUnknownOptions (globalCommand cli) command c1 = Inl (UnknownOption k')"
    by (simp add: checkUnknownOptions_def)
  with assms(4,5) have "runMatchedCommand cli c1 = Inl (UnknownOption k')"
    by (simp add: runMatchedCommand_def)
  moreover from assms(2,3) have "versionStep cli (helpStep cli (c1, True)) = (c1, True)"
    by (auto simp: versionStep_def helpStep_def)
  ultimately have "snd (parse getFileName cli st e argv True) = Inl (UnknownOption k')"
    using assms(1) by (simp add: parse_def Let_def)
  with k' show ?thesis
    by blast
qed

theorem unknown_option_raised_witness:
  "\<not> (truthy_oval (obj_get (options force_matched) ''help'') \<and> showHelpOnExit rm_cli)
   \<and> \<not> (truthy_oval (obj_get (options force_matched) ''version'') \<and> showVersionOnExit rm_cli
          \<and> matchedCommandName force_matched = None)
   \<and> matchedCommand force_matched \<noteq> None
   \<and> commandAction (the (matchedCommand force_matched)) \<noteq> None
   \<and> \<not> allowUnknownOptions (cmd_config (the (matchedCommand force_matched)))
   \<and> ''force'' \<in> fst ` set (options force_matched)
   \<and> ''force'' \<notin> set (declaredNames (globalCommand rm_cli) (the (matchedCommand force_matched)))
   \<and> thrown (parse fileNameOf rm_cli Map.empty () force_argv True) = Some (UnknownOption ''force'')"
proof -
  have h: "\<not> (truthy_oval (obj_get (options force_matched) ''help'') \<and> showHelpOnExit rm_cli)"
    by code_simp
  have v: "\<not> (truthy_oval (obj_get (options force_matched) ''version'') \<and> showVersionOnExit rm_cli
               \<and> matchedCommandName force_matched = None)"
    by code_simp
  have m: "matchedCommand force_matched \<noteq> None"
    by code_simp
  then obtain command where mc: "matchedCommand force_matched = Some command"
    by auto
  have "commandAction (the (matchedCommand force_matched)) \<noteq> None"
    by code_simp
  then obtain act where ca: "commandAction command = Some act"
    using mc by auto
  have "\<not> allowUnknownOptions (cmd_config (the (matchedCommand force_matched)))"
    by code_simp
  then have au: "\<not> allowUnknownOptions (cmd_config command)"
    using mc by simp
  have keys: "map fst (options force_matched) = [''--'', ''force'']"
    by code_simp
  then have k: "''force'' \<in> fst ` set (options force_matched)"
    by (metis list.set_intros(1,2) list.set_map)
  have "''force'' \<notin> set (declaredNames (globalCommand rm_cli) (the (matchedCommand force_matched)))"
    by code_simp
  then have nd: "''force'' \<notin> set (declaredNames (globalCommand rm_cli) command)"
    using mc by simp
  have ne: "''force'' \<noteq> ''--''"
    by simp
  from unknown_option_raised [OF force_matched_def h v mc ca au k ne nd]
  obtain k' where e: "snd (parse fileNameOf rm_cli Map.empty () force_argv True) = Inl (UnknownOption k')"
    and "k' \<in> fst ` set (options force_matched)" and "k' \<noteq> ''--''"
    by blast
  from this(2) have "k' \<in> set (map fst (options force_matched))"
    by simp
  with keys \<open>k' \<noteq> ''--''\<close> have "k' = ''force''"
    by simp
  with e have "thrown (parse fileNameOf rm_cli Map.empty () force_argv True) = Some (UnknownOption ''force'')"
    by (simp add: thrown_def)
  with h v m mc ca au k nd show ?thesis
    by simp
qed

text \<open>
  C6 as stated fails for a matched command without a handler: line 331 returns before
  \<^verbatim>\<open>checkUnknownOptions\<close> is called. \<^verbatim>\<open>build --foo\<close> matches the command \<^verbatim>\<open>build\<close>,
  carries the undeclared key \<^verbatim>\<open>foo\<close>, and \<^verbatim>\<open>parse\<close> returns without an error.
\<close>

theorem unknown_option_counterexample:
  "thrown plain_run = None
   \<and> map_option cmd_name (matchedCommand (the (returned plain_run))) = Some ''build''
   \<and> \<not> allowUnknownOptions (cmd_config (the (matchedCommand (the (returned plain_run)))))
   \<and> ''foo'' \<in> fst ` set (options (the (returned plain_run)))
   \<and> ''foo'' \<notin> set (declaredNames (globalCommand plain_cli) (the (matchedCommand (the (returned plain_run)))))"
  by code_simp

section \<open>Dot-path keys\<close>

text \<open>
  C7, as the code has it. The keys meant are those of the object \<^verbatim>\<open>parsed\<close> after line
  278 (the tokenizer's keys, camel-cased). Take such a key other than \<^verbatim>\<open>_\<close>, with its
  value, whose first dot segment is not \<^verbatim>\<open>--\<close> and is a name under which no option in
  scope registers an array coercion or writes a default, and whose path parts from the
  path of every other key (neither is the beginning of the other). Then the loop of
  lines 313 to 320 has split the key at the dots and written the value into the
  nested mapping along that path: in the final options mapping the value read along
  the path is the value of the key, whatever the other keys are; so keys that share
  their first segments end up in one nested object. The keys of one parse have
  pairwise distinct paths, so within one parse no key is assigned at the path of
  another.
\<close>

theorem dot_path_assignment:
  assumes "(k, v) \<in> set (parsedOf cli command argv)"
    and "k \<noteq> ''_''"
    and "hd (split_on CHR ''.'' k) \<noteq> ''--''"
    and "\<forall>opt \<in> set (cliOptionsOf cli command).
           \<not> coerces opt (hd (split_on CHR ''.'' k))
           \<and> \<not> seeds (ignoreDefaultOf cli command) opt (hd (split_on CHR ''.'' k))"
    and "pathsApart k (parsedOf cli command argv)"
  shows "getDotProp (fst (mri cli st argv command)) (pa_options (snd (mri cli st argv command)))
           (split_on CHR ''.'' k) = Some v
         \<and> distinct (map (\<lambda>kv. split_on CHR ''.'' (fst kv)) (parsedOf cli command argv))"
proof -
  let ?n = "hd (split_on CHR ''.'' k)"
  let ?ig = "ignoreDefaultOf cli command"
  let ?o0 = "[(''--'', Val (VArr (map VStr (argsAfterDoubleDashesOf argv))))]"
  let ?ot = "fold (seedOption ?ig) (cliOptionsOf cli command) (?o0, [])"
  let ?p = "parsedOf cli command argv"
  let ?so = "assignOptions st (fst ?ot) (snd ?ot) ?p"
  from assms(4) have "\<forall>opt \<in> set (cliOptionsOf cli command). \<not> coerces opt ?n"
    by simp
  then have nt: "?n \<notin> fst ` set (snd ?ot)"
    by (rule not_declared_transforms)
  from assms(4) have "\<forall>opt \<in> set (cliOptionsOf cli command). \<not> seeds ?ig opt ?n"
    by simp
  then have "obj_get (fst ?ot) ?n = obj_get (fst (?o0, []::transforms)) ?n"
    by (rule seedAll_get_none)
  with assms(3) have "obj_get (fst ?ot) ?n = None"
    by (simp add: obj_get_def)
  then have pl: "plain (fst ?ot) ?n"
    by (simp add: plain_def)
  have fin: "plain (snd ?so) ?n"
    by (rule loop_plain [OF nt pl])
  have "get_path (slot_obj (snd ?so) ?n) (split_on CHR ''.'' k) = Some v"
    by (rule loop_read [OF nt assms(2) refl pl parsedOf_distinct assms(1) assms(5)])
  with getDotProp_slot [OF fin split_on_nonempty refl, of "fst ?so"]
  have "getDotProp (fst ?so) (snd ?so) (split_on CHR ''.'' k) = Some v"
    by simp
  then have "getDotProp (fst (mri cli st argv command)) (pa_options (snd (mri cli st argv command)))
               (split_on CHR ''.'' k) = Some v"
    by (simp add: mri_unfold)
  moreover have "distinct (map (\<lambda>kv. split_on CHR ''.'' (fst kv)) ?p)"
    by (rule distinct_paths [OF parsedOf_distinct])
  ultimately show ?thesis
    by simp
qed

theorem dot_path_assignment_witness:
  "(''a.b'', VNum 1) \<in> set (parsedOf bare_cli None nested_argv)
   \<and> (''a.c'', VNum 2) \<in> set (parsedOf bare_cli None nested_argv)
   \<and> hd (split_on CHR ''.'' ''a.b'') = ''a'' \<and> hd (split_on CHR ''.'' ''a.c'') = ''a''
   \<and> list_all (\<lambda>opt. \<not> coerces opt ''a'' \<and> \<not> seeds (ignoreDefaultOf bare_cli None) opt ''a'')
        (cliOptionsOf bare_cli None)
   \<and> pathsApart ''a.b'' (parsedOf bare_cli None nested_argv)
   \<and> pathsApart ''a.c'' (parsedOf bare_cli None nested_argv)
   \<and> getDotProp (fst (mri bare_cli Map.empty nested_argv None))
        (pa_options (snd (mri bare_cli Map.empty nested_argv None))) [''a'', ''b''] = Some (VNum 1)
   \<and> getDotProp (fst (mri bare_cli Map.empty nested_argv None))
        (pa_options (snd (mri bare_cli Map.empty nested_argv None))) [''a'', ''c''] = Some (VNum 2)
   \<and> pa_options (snd (mri bare_cli Map.empty nested_argv None))
       = [(''--'', Val (VArr [])), (''a'', Val (VObj [(''b'', VNum 1), (''c'', VNum 2)]))]"
proof -
  have m: "(''a.b'', VNum 1) \<in> set (parsedOf bare_cli None nested_argv)"
    "(''a.c'', VNum 2) \<in> set (parsedOf bare_cli None nested_argv)"
    by code_simp+
  have s: "split_on CHR ''.'' ''a.b'' = [''a'', ''b'']" "split_on CHR ''.'' ''a.c'' = [''a'', ''c'']"
    by code_simp+
  have l: "list_all (\<lambda>opt. \<not> coerces opt ''a'' \<and> \<not> seeds (ignoreDefaultOf bare_cli None) opt ''a'')
             (cliOptionsOf bare_cli None)"
    by code_simp
  then have o: "\<forall>opt \<in> set (cliOptionsOf bare_cli None).
                  \<not> coerces opt ''a'' \<and> \<not> seeds (ignoreDefaultOf bare_cli None) opt ''a''"
    by (simp add: list_all_iff)
  have a: "pathsApart ''a.b'' (parsedOf bare_cli None nested_argv)"
    "pathsApart ''a.c'' (parsedOf bare_cli None nested_argv)"
    by code_simp+
  have f: "pa_options (snd (mri bare_cli Map.empty nested_argv None))
             = [(''--'', Val (VArr [])), (''a'', Val (VObj [(''b'', VNum 1), (''c'', VNum 2)]))]"
    by code_simp
  have u: "''a.b'' \<noteq> ''_''" "''a.c'' \<noteq> ''_''" "''a'' \<noteq> ''--''"
    by simp_all
  from dot_path_assignment [where k = "''a.b''" and st = Map.empty, OF m(1) u(1) _ _ a(1)] s o u
  have r1: "getDotProp (fst (mri bare_cli Map.empty nested_argv None))
              (pa_options (snd (mri bare_cli Map.empty nested_argv None))) [''a'', ''b''] = Some (VNum 1)"
    by simp
  from dot_path_assignment [where k = "''a.c''" and st = Map.empty, OF m(2) u(2) _ _ a(2)] s o u
  have r2: "getDotProp (fst (mri bare_cli Map.empty nested_argv None))
              (pa_options (snd (mri bare_cli Map.empty nested_argv None))) [''a'', ''c''] = Some (VNum 2)"
    by simp
  from s have h: "hd (split_on CHR ''.'' ''a.b'') = ''a''" "hd (split_on CHR ''.'' ''a.c'') = ''a''"
    by simp_all
  from m h l a r1 r2 f show ?thesis
    by (intro conjI)
qed

text \<open>
  C7 as stated fails where the first segment is the canonical name of an option
  declared with an array coercion: after each key, line 318 replaces what is under
  that name by an array. With \<^verbatim>\<open>--a [a]\<close> declared with \<^verbatim>\<open>type: [f]\<close>, \<^verbatim>\<open>--a.b=1 --a.c=2\<close>
  does not yield \<^verbatim>\<open>{a: {b: 1, c: 2}}\<close>: under \<^verbatim>\<open>a\<close> there is an array and the path \<^verbatim>\<open>a.b\<close>
  leads nowhere.
\<close>

theorem dot_path_coerced_counterexample:
  "(''a.b'', VNum 1) \<in> set (parsedOf coerced_cli None nested_argv)
   \<and> (''a.c'', VNum 2) \<in> set (parsedOf coerced_cli None nested_argv)
   \<and> pa_options (snd (mri coerced_cli Map.empty nested_argv None))
       = [(''--'', Val (VArr [])), (''a'', Val (VArr [VObj [(''c'', VNum 2)]]))]
   \<and> getDotProp (fst (mri coerced_cli Map.empty nested_argv None))
        (pa_options (snd (mri coerced_cli Map.empty nested_argv None))) (split_on CHR ''.'' ''a.b'')
       = None"
  by code_simp

section \<open>Array coercion\<close>


section \<open>The registry after a call\<close>

text \<open>
  C9 fails on the code. Line 297 stores a declared default in the options mapping
  without copying it, and a dot-path key walks into the object that is there. With
  \<^verbatim>\<open>--env <env>\<close> declared with the default \<^verbatim>\<open>{}\<close>, the call with \<^verbatim>\<open>--env.foo 1\<close> leaves
  the declared default as \<^verbatim>\<open>{foo: 1}\<close>: the option set of the registry is not what it
  was before the call, and a later call without any flag returns that object as the
  value of \<^verbatim>\<open>env\<close>.
\<close>

theorem default_object_mutated:
  "env_store 0 = Some []
   \<and> fst env_run 0 = Some [(''foo'', VNum 1)]
   \<and> map_option options (returned env_run) = Some [(''--'', Val (VArr [])), (''env'', Ref 0)]
   \<and> map_option options (returned env_rerun) = Some [(''--'', Val (VArr [])), (''env'', Ref 0)]
   \<and> fst env_rerun 0 = Some [(''foo'', VNum 1)]"
  by code_simp

section \<open>The name of the context\<close>

text \<open>
  C10. Whenever \<^verbatim>\<open>parse\<close> returns a context, its \<open>name\<close> is \<^verbatim>\<open>getFileName(argv[1])\<close> if
  the program name given to the constructor is non-empty or \<^verbatim>\<open>argv[1]\<close> is truthy, and
  the literal \<^verbatim>\<open>cli\<close> only if the program name is empty and \<^verbatim>\<open>argv[1]\<close> is falsy. The
  program name itself never becomes the name of the context: it only decides between
  the two.
\<close>

theorem parse_context_name:
  assumes "parse getFileName cli st e argv run = (st', Inr c)"
  shows "cntx_name c =
           (if cac_name cli \<noteq> [] \<or> truthy_str (argv1 argv) then getFileName (argv1 argv)
            else ''cli'')"
proof -
  let ?c0 = "initialCntx getFileName cli e argv"
  let ?c2 = "fst (versionStep cli (helpStep cli (snd (matchCommand cli argv st ?c0), run)))"
  have "cntx_name c = cntx_name ?c2"
    using assms by (cases rule: parse_returns_cases) simp_all
  moreover have "cntx_frame ?c2 = cntx_frame ?c0"
    by (rule frame_steps)
  ultimately have "cntx_name c = cntx_name ?c0"
    by (simp add: cntx_frame_def)
  then show ?thesis
    by (simp add: initialCntx_def)
qed

theorem parse_context_name_witness:
  "returned (parse fileNameOf rm_cli Map.empty ()
               [''node'', ''/usr/bin/rm-cli'', ''rm'', ''a/b'', ''-r''] True) \<noteq> None
   \<and> map_option cntx_name
        (returned (parse fileNameOf rm_cli Map.empty ()
                     [''node'', ''/usr/bin/rm-cli'', ''rm'', ''a/b'', ''-r''] True))
       = Some ''rm-cli''"
proof -
  let ?argv = "[''node'', ''/usr/bin/rm-cli'', ''rm'', ''a/b'', ''-r'']"
  let ?r = "parse fileNameOf rm_cli Map.empty () ?argv True"
  have ret: "returned ?r \<noteq> None"
    by code_simp
  then obtain st' c where p: "?r = (st', Inr c)"
    by (cases ?r; cases "snd ?r") (auto simp: returned_def)
  have "(if cac_name rm_cli \<noteq> [] \<or> truthy_str (argv1 ?argv) then fileNameOf (argv1 ?argv)
         else ''cli'') = ''rm-cli''"
    by code_simp
  with parse_context_name [OF p] have "cntx_name c = ''rm-cli''"
    by simp
  with ret p show ?thesis
    by (simp add: returned_def)
qed

end
